theory Spec2Isabelle
  imports Main "HOL-Library.Word"
begin

section \<open>JavaScript values, objects and the Map of users\<close>

text \<open>
  A JavaScript string is a sequence of UTF-16 code units; \<open>length\<close> and \<open>slice\<close>
  count code units.  Property names of the source are written as HOL strings.
\<close>

type_synonym code_unit = "16 word"
type_synonym jsstring = "code_unit list"

text \<open>
  The payloads that arrive on the socket are untyped objects.  An object is the partial
  map of its own enumerable properties; a property may itself hold an object (\<open>pos\<close>).
  Coordinates are opaque to every function below, so numbers are integers here.
\<close>

datatype jsval =
    JUndefined
  | JStr jsstring
  | JNum int
  | JObj "string \<Rightarrow> jsval option"

type_synonym obj = "string \<Rightarrow> jsval option"

text \<open>\<open>o.p\<close>: reading a property that the object does not have gives \<open>undefined\<close>.\<close>

definition js_get :: "obj \<Rightarrow> string \<Rightarrow> jsval" where
  "js_get ob p = (case ob p of None \<Rightarrow> JUndefined | Some v \<Rightarrow> v)"

text \<open>\<open>{...a, ...b}\<close>: the properties of \<open>a\<close>, overwritten and extended by those of \<open>b\<close>.\<close>

definition spread2 :: "obj \<Rightarrow> obj \<Rightarrow> obj" where
  "spread2 a b = a ++ b"

text \<open>
  \<open>UserMap = Map<string, User>\<close>.  A JavaScript \<open>Map\<close> keeps its entries in insertion
  order, holds each key once and accepts any value as a key, \<open>undefined\<close> included.
  \<open>set\<close> on a key that is present replaces the value in place; on a new key it
  appends the entry.
\<close>

type_synonym UserMap = "(jsval \<times> obj) list"

fun Map_has :: "UserMap \<Rightarrow> jsval \<Rightarrow> bool" where
  "Map_has [] k = False"
| "Map_has ((k', v) # m) k = (if k' = k then True else Map_has m k)"

fun Map_get :: "UserMap \<Rightarrow> jsval \<Rightarrow> obj option" where
  "Map_get [] k = None"
| "Map_get ((k', v) # m) k = (if k' = k then Some v else Map_get m k)"

fun Map_set :: "UserMap \<Rightarrow> jsval \<Rightarrow> obj \<Rightarrow> UserMap" where
  "Map_set [] k v = [(k, v)]"
| "Map_set ((k', v') # m) k v = (if k' = k then (k, v) # m else (k', v') # Map_set m k v)"

definition Map_keys :: "UserMap \<Rightarrow> jsval list" where
  "Map_keys m = map fst m"

definition Map_values :: "UserMap \<Rightarrow> obj list" where
  "Map_values m = map snd m"

section \<open>RemoteCursors: the handlers of the socket events\<close>

text \<open>
  The handler of \<open>cursor-changed\<close>, as the state update \<open>prev \<mapsto> newMap\<close>:
  \<^verbatim>\<open>
    const newMap = new Map(prev);
    if (!prev.has(data.socketId)) { newMap.set(data.socketId, { ...data }); }
    else { newMap.set(data.socketId, { ...prev.get(data.socketId), ...data }); }
    return newMap;
  \<close>
  The key is whatever \<open>data.socketId\<close> evaluates to; nothing checks that it is there.
  In the second branch the key is present, so \<open>prev.get\<close> returns its record; spreading
  \<open>undefined\<close> would add no property.
\<close>

definition cursor_changed :: "UserMap \<Rightarrow> obj \<Rightarrow> UserMap" where
  "cursor_changed prev data =
     (if \<not> Map_has prev (js_get data ''socketId'')
      then Map_set prev (js_get data ''socketId'') data
      else (case Map_get prev (js_get data ''socketId'') of
              Some r \<Rightarrow> Map_set prev (js_get data ''socketId'') (spread2 r data)
            | None \<Rightarrow> Map_set prev (js_get data ''socketId'') data))"

text \<open>
  The handler of \<open>users-updated\<close>: a fresh Map, filled by \<open>forEach\<close> in the order of
  the array, replaces the state.  The previous state is not read.
\<close>

definition users_updated :: "UserMap \<Rightarrow> obj list \<Rightarrow> UserMap" where
  "users_updated prev data = fold (\<lambda>user newMap. Map_set newMap (js_get user ''socketId'') user) data []"

text \<open>
  The render: \<open>Array.from(_users.values()).filter((user) => user.socketId !== socket?.id)\<close>,
  one \<open>Cursor\<close> per remaining user.  \<open>socket?.id\<close> is \<open>undefined\<close> while there is no
  socket.  The identifiers compared are strings or \<open>undefined\<close>, on which \<open>!==\<close> is
  inequality of values.
\<close>

definition socket_id :: "jsval option \<Rightarrow> jsval" where
  "socket_id socket = (case socket of None \<Rightarrow> JUndefined | Some i \<Rightarrow> i)"

definition rendered_users :: "UserMap \<Rightarrow> jsval option \<Rightarrow> obj list" where
  "rendered_users users socket =
     filter (\<lambda>user. js_get user ''socketId'' \<noteq> socket_id socket) (Map_values users)"

section \<open>RemoteCursors: publishing the local pointer\<close>

type_synonym coords = "int \<times> int"

text \<open>
  What \<open>socket.emit\<close> hands to the transport.  The only event this component emits is
  \<open>cursor-change\<close> with the payload \<open>{ pos: { x, y }, socketId: socket.id }\<close>.
\<close>

record emit =
  ev_name :: string
  ev_pos :: coords
  ev_socketId :: jsval

text \<open>
  The callback given to \<open>useThrottle\<close>:
  \<^verbatim>\<open>(x, y) => { socket?.emit("cursor-change", { pos: { x, y }, socketId: socket.id }); }\<close>
  The socket of the context is \<open>null\<close> until the provider has created it; it is
  modelled by \<open>None\<close>, and a socket whose \<open>id\<close> is \<open>i\<close> by \<open>Some i\<close>.
\<close>

definition publish :: "jsval option \<Rightarrow> coords \<Rightarrow> emit list \<Rightarrow> emit list" where
  "publish socket c out =
     (case socket of
        None \<Rightarrow> out
      | Some i \<Rightarrow> out @ [\<lparr>ev_name = ''cursor-change'', ev_pos = c, ev_socketId = i\<rparr>])"

text \<open>
  Modelled from the spec: the hook \<open>useThrottle\<close> (\<open>@/hooks/use-throttle\<close>) is not among
  the sources; only its call \<open>useThrottle(callback, 200)\<close> is.  The spec's words: at most
  one invocation of the underlying send per fixed interval, taking the most recent call's
  arguments within that window; the latest coordinates known at the time the interval
  elapses are sent; intermediate calls during the window are coalesced, not queued.
  The state of the throttle is the arguments waiting to be sent, if any, and the time at
  which the window that holds them elapses.
\<close>

record throttle =
  pending :: "coords option"
  window_end :: nat

text \<open>
  Modelled from the spec: \<open>useThrottle\<close> before any call; nothing waits to be sent.
\<close>

definition throttle_idle :: throttle where
  "throttle_idle = \<lparr>pending = None, window_end = 0\<rparr>"

text \<open>
  Modelled from the spec: a call of the function \<open>useThrottle\<close> returns.  The first call
  opens a window of \<open>limit\<close> milliseconds; a call inside an open window replaces the
  waiting arguments and leaves the window as it is.
\<close>

definition throttle_call :: "nat \<Rightarrow> nat \<Rightarrow> coords \<Rightarrow> throttle \<Rightarrow> throttle" where
  "throttle_call limit t c th =
     (case pending th of
        None \<Rightarrow> \<lparr>pending = Some c, window_end = t + limit\<rparr>
      | Some _ \<Rightarrow> th\<lparr>pending := Some c\<rparr>)"

text \<open>
  Modelled from the spec: the clock of \<open>useThrottle\<close> reaching time \<open>t\<close>.  When the window
  has elapsed the waiting arguments are released for one invocation of the callback and
  the throttle is idle again.
\<close>

definition throttle_elapse :: "nat \<Rightarrow> throttle \<Rightarrow> coords option \<times> throttle" where
  "throttle_elapse t th =
     (case pending th of
        None \<Rightarrow> (None, th)
      | Some c \<Rightarrow> if window_end th \<le> t then (Some c, throttle_idle) else (None, th))"

text \<open>
  The state of one mounted \<open>RemoteCursors\<close>: the socket of the context and the value of
  \<open>useMediaQuery("(max-width: 768px)")\<close> in the current render, the users of the context,
  the listeners that are registered, each with the socket it was registered on, the socket
  on which the cleanup returned by the latest run of the first effect will call
  \<open>off("cursor-changed")\<close> (none when that run returned early), the throttle behind
  \<open>handleMouseMove\<close>, what has been emitted, the clock in milliseconds and the pointer
  position last given by \<open>useMouse\<close>.  A socket is written by its \<open>id\<close>.
  \<open>callback_runs\<close> is a log for the statements below, which the component does not keep:
  the arguments of every run of the throttled callback, in order.
\<close>

datatype listener = On_cursor_changed | On_users_updated

record remote_cursors =
  ctx_socket :: "jsval option"
  is_mobile :: bool
  users :: UserMap
  listeners :: "(jsval \<times> listener) list"
  cleanup :: "jsval option"
  th :: throttle
  callback_runs :: "coords list"
  sent :: "emit list"
  clock :: nat
  mouse :: coords

text \<open>
  The cleanup of the first effect: \<open>return () => { socket.off("cursor-changed"); };\<close>.
  It removes the listeners of \<open>cursor-changed\<close> from the socket of the run that returned
  it, and no listener of \<open>users-updated\<close>.
\<close>

definition run_cleanup :: "remote_cursors \<Rightarrow> remote_cursors" where
  "run_cleanup s =
     (case cleanup s of
        None \<Rightarrow> s
      | Some k \<Rightarrow> s\<lparr>listeners := filter (\<lambda>l. l \<noteq> (k, On_cursor_changed)) (listeners s),
                    cleanup := None\<rparr>)"

text \<open>
  The body of the first effect.
  \<open>if (typeof window === "undefined" || !socket || isMobile) return;\<close> then the two
  \<open>socket.on\<close> and the cleanup is returned.  Effects run in the browser only, where
  \<open>window\<close> is defined.  \<open>useMediaQuery\<close> is not among the sources: its value is a part
  of the state that the event \<open>Viewport\<close> below changes.
\<close>

definition listen_effect :: "remote_cursors \<Rightarrow> remote_cursors" where
  "listen_effect s =
     (case ctx_socket s of
        None \<Rightarrow> s
      | Some k \<Rightarrow>
          if is_mobile s then s
          else s\<lparr>listeners := listeners s @ [(k, On_cursor_changed), (k, On_users_updated)],
                 cleanup := Some k\<rparr>)"

text \<open>\<open>const handleMouseMove = useThrottle(callback, 200)\<close>: one call of it.\<close>

definition handleMouseMove :: "coords \<Rightarrow> remote_cursors \<Rightarrow> remote_cursors" where
  "handleMouseMove c s = s\<lparr>th := throttle_call 200 (clock s) c (th s)\<rparr>"

text \<open>The second effect: \<open>if (isMobile) return; handleMouseMove(x, y);\<close>\<close>

definition pointer_effect :: "remote_cursors \<Rightarrow> remote_cursors" where
  "pointer_effect s = (if is_mobile s then s else handleMouseMove (mouse s) s)"

text \<open>
  Time passing: the throttle may release its arguments to the callback.  The hook is not
  among the sources; the callback that it runs is taken to be the one of the current
  render, which sees the socket of that render.
\<close>

definition elapse :: "nat \<Rightarrow> remote_cursors \<Rightarrow> remote_cursors" where
  "elapse d s =
     (case throttle_elapse (clock s + d) (th s) of
        (None, th') \<Rightarrow> s\<lparr>clock := clock s + d\<rparr>
      | (Some c, th') \<Rightarrow>
          s\<lparr>clock := clock s + d, th := th', callback_runs := callback_runs s @ [c],
            sent := publish (ctx_socket s) c (sent s)\<rparr>)"

text \<open>
  An event that arrives on socket \<open>k\<close> reaches the listeners registered on \<open>k\<close> for it,
  in the order of their registration; each runs its state update.
\<close>

definition deliver_cursor_changed :: "jsval \<Rightarrow> obj \<Rightarrow> remote_cursors \<Rightarrow> remote_cursors" where
  "deliver_cursor_changed k data s =
     s\<lparr>users := fold (\<lambda>l u. if l = (k, On_cursor_changed) then cursor_changed u data else u)
                  (listeners s) (users s)\<rparr>"

definition deliver_users_updated :: "jsval \<Rightarrow> obj list \<Rightarrow> remote_cursors \<Rightarrow> remote_cursors" where
  "deliver_users_updated k data s =
     s\<lparr>users := fold (\<lambda>l u. if l = (k, On_users_updated) then users_updated u data else u)
                  (listeners s) (users s)\<rparr>"

datatype rc_event =
    Recv_cursor_changed jsval obj
  | Recv_users_updated jsval "obj list"
  | Pointer coords
  | Elapse nat
  | Socket "jsval option"
  | Viewport bool

text \<open>
  \<open>Pointer\<close>: \<open>useMouse\<close> reports a position; the second effect has the dependencies
  \<open>[x, y, isMobile]\<close> and runs again when \<open>x\<close> or \<open>y\<close> has changed.
  \<open>Socket\<close>: the context holds another socket; the first effect has the dependencies
  \<open>[socket, isMobile]\<close>, so its cleanup runs and then its body.
  \<open>Viewport\<close>: \<open>useMediaQuery\<close> returns another value; both effects run again, the
  first after its cleanup.
\<close>

fun rc_step :: "rc_event \<Rightarrow> remote_cursors \<Rightarrow> remote_cursors" where
  "rc_step (Recv_cursor_changed k data) s = deliver_cursor_changed k data s"
| "rc_step (Recv_users_updated k data) s = deliver_users_updated k data s"
| "rc_step (Pointer c) s = (if c = mouse s then s else pointer_effect (s\<lparr>mouse := c\<rparr>))"
| "rc_step (Elapse d) s = elapse d s"
| "rc_step (Socket v) s =
     (if v = ctx_socket s then s else listen_effect (run_cleanup (s\<lparr>ctx_socket := v\<rparr>)))"
| "rc_step (Viewport b) s =
     (if b = is_mobile s then s
      else pointer_effect (listen_effect (run_cleanup (s\<lparr>is_mobile := b\<rparr>))))"

definition rc_run :: "rc_event list \<Rightarrow> remote_cursors \<Rightarrow> remote_cursors" where
  "rc_run evs s = fold rc_step evs s"

text \<open>
  The mount, with the socket and the viewport of the first render and the users \<open>users0\<close>
  of the context: both effects run once.
\<close>

definition rc_mount :: "jsval option \<Rightarrow> bool \<Rightarrow> UserMap \<Rightarrow> coords \<Rightarrow> remote_cursors" where
  "rc_mount socket0 mobile0 users0 c =
     pointer_effect
       (listen_effect
          \<lparr>ctx_socket = socket0, is_mobile = mobile0, users = users0, listeners = [],
           cleanup = None, th = throttle_idle, callback_runs = [], sent = [], clock = 0,
           mouse = c\<rparr>)"

text \<open>
  Calls of \<open>handleMouseMove\<close> that follow one another, each after its delay in
  milliseconds.
\<close>

fun calls_after :: "(nat \<times> coords) list \<Rightarrow> remote_cursors \<Rightarrow> remote_cursors" where
  "calls_after [] s = s"
| "calls_after ((d, c) # rest) s = calls_after rest (handleMouseMove c (elapse d s))"

text \<open>
  The first render is on a mobile viewport and no later render is on a desktop one.
\<close>

definition stays_mobile :: "rc_event list \<Rightarrow> bool" where
  "stays_mobile evs \<longleftrightarrow> Viewport False \<notin> set evs"

section \<open>Cursor: the tooltip and the message bubble of one remote user\<close>

text \<open>\<open>Message\<close> of the socket context.\<close>

record message =
  socketId :: jsstring
  content :: jsstring
  time :: nat
  username :: jsstring

text \<open>\<open>msgs.at(-1)\<close>: the last element, \<open>undefined\<close> on the empty array.\<close>

definition at_last :: "'a list \<Rightarrow> 'a option" where
  "at_last xs = (if xs = [] then None else Some (last xs))"

text \<open>The string literal \<open>"..."\<close>: three full stops.\<close>

definition dots :: jsstring where
  "dots = [0x2E, 0x2E, 0x2E]"

text \<open>\<open>lastMsgContent.slice(0, 30) + (lastMsgContent.length > 30 ? "..." : "")\<close>\<close>

definition textSlice :: "jsstring \<Rightarrow> jsstring" where
  "textSlice lastMsgContent =
     take 30 lastMsgContent @ (if length lastMsgContent > 30 then dots else [])"

text \<open>\<open>Math.min(4000, Math.max(textSlice.length * 100, 1000))\<close>, in milliseconds.\<close>

definition timeToRead :: "jsstring \<Rightarrow> nat" where
  "timeToRead text = min 4000 (max (length text * 100) 1000)"

text \<open>
  The two callbacks that the component passes to \<open>setTimeout\<close>:
  \<open>() => { setShowText(false); }\<close> and \<open>() => { setMsgText(""); clearTimeout(t); }\<close>.
  A pending timeout has the identifier that \<open>setTimeout\<close> returned, the time at which it
  falls due and its callback.
\<close>

datatype callback = FadeOut | ClearMsg

record timer =
  tid :: nat
  due :: nat
  act :: callback

text \<open>
  The state of one mounted \<open>Cursor\<close>: the props \<open>x\<close>, \<open>y\<close> and \<open>socketId\<close>, the two
  \<open>useState\<close> cells, the timeout that the cleanup of the first effect will clear (the
  \<open>fadeOutTimeout\<close> of its latest run), the pending timeouts, the next identifier that
  \<open>setTimeout\<close> returns, and the clock in milliseconds.
\<close>

record cursor =
  p_x :: int
  p_y :: int
  p_socketId :: jsstring
  showText :: bool
  msgText :: jsstring
  fadeOutTimeout :: "nat option"
  timers :: "timer list"
  next_tid :: nat
  now :: nat

definition setTimeout :: "callback \<Rightarrow> nat \<Rightarrow> cursor \<Rightarrow> cursor" where
  "setTimeout f delay s =
     s\<lparr>timers := timers s @ [\<lparr>tid = next_tid s, due = now s + delay, act = f\<rparr>],
       next_tid := Suc (next_tid s)\<rparr>"

definition clearTimeout :: "nat \<Rightarrow> cursor \<Rightarrow> cursor" where
  "clearTimeout i s = s\<lparr>timers := filter (\<lambda>t. tid t \<noteq> i) (timers s)\<rparr>"

text \<open>
  The first effect, dependencies \<open>[x, y, msgText]\<close>.  A run is preceded by the cleanup of
  the run before it, \<open>clearTimeout(fadeOutTimeout)\<close>; then
  \<^verbatim>\<open>
    setShowText(true);
    const fadeOutTimeout = setTimeout(() => { setShowText(false); }, 3000);
  \<close>
\<close>

definition tooltip_effect :: "cursor \<Rightarrow> cursor" where
  "tooltip_effect s =
     (let s1 = (case fadeOutTimeout s of None \<Rightarrow> s | Some i \<Rightarrow> clearTimeout i s);
          s2 = s1\<lparr>showText := True\<rparr>
      in (setTimeout FadeOut 3000 s2)\<lparr>fadeOutTimeout := Some (next_tid s2)\<rparr>)"

text \<open>
  \<open>setMsgText(v)\<close>: the component renders again, and the first effect runs again when
  the dependency \<open>msgText\<close> has changed.
\<close>

definition setMsgText :: "jsstring \<Rightarrow> cursor \<Rightarrow> cursor" where
  "setMsgText v s = (if msgText s = v then s else tooltip_effect (s\<lparr>msgText := v\<rparr>))"

text \<open>
  The second effect, dependencies \<open>[msgs]\<close>; it returns no cleanup.
  \<^verbatim>\<open>
    if (msgs.at(-1)?.socketId === socketId) {
      const lastMsgContent = msgs.at(-1)?.content || "";
      const textSlice = ...;  const timeToRead = ...;
      setMsgText(textSlice);
      const t = setTimeout(() => { setMsgText(""); clearTimeout(t); }, timeToRead);
    }
  \<close>
  The state update takes effect in the render that follows the effect, so the timeout is
  registered before the first effect runs again.  \<open>content\<close> is a string, which
  \<open>|| ""\<close> leaves as it is.
\<close>

definition message_effect :: "message list \<Rightarrow> cursor \<Rightarrow> cursor" where
  "message_effect msgs s =
     (case at_last msgs of
        None \<Rightarrow> s
      | Some m \<Rightarrow>
          if socketId m = p_socketId s
          then setMsgText (textSlice (content m))
                 (setTimeout ClearMsg (timeToRead (textSlice (content m))) s)
          else s)"

text \<open>A callback running; \<open>i\<close> is the identifier of its own timeout.\<close>

fun run_callback :: "callback \<Rightarrow> nat \<Rightarrow> cursor \<Rightarrow> cursor" where
  "run_callback FadeOut i s = s\<lparr>showText := False\<rparr>"
| "run_callback ClearMsg i s = setMsgText [] (clearTimeout i s)"

text \<open>
  A timeout that has fallen due fires, unless a callback that ran before it has cleared
  it; a timeout fires once.
\<close>

definition fire :: "timer \<Rightarrow> cursor \<Rightarrow> cursor" where
  "fire t s =
     (if tid t \<in> set (map tid (timers s))
      then run_callback (act t) (tid t) (clearTimeout (tid t) s)
      else s)"

text \<open>
  One millisecond passes; the timeouts that fall due fire in the order of their
  registration.  A callback registers timeouts of 3000 ms only, which are not due in the
  same millisecond.  The clock is ideal: a timeout fires in the millisecond in which it
  falls due, where a browser promises no earlier.
\<close>

definition tick :: "cursor \<Rightarrow> cursor" where
  "tick s = fold fire (filter (\<lambda>t. due t \<le> Suc (now s)) (timers s)) (s\<lparr>now := Suc (now s)\<rparr>)"

fun advance :: "nat \<Rightarrow> cursor \<Rightarrow> cursor" where
  "advance 0 s = s"
| "advance (Suc d) s = advance d (tick s)"

datatype cursor_event =
    Move int int
  | Msgs "message list"
  | MouseEnter
  | MouseLeave
  | Wait nat

text \<open>
  \<open>Move\<close>: the parent renders the cursor with new props; the first effect runs again
  when \<open>x\<close> or \<open>y\<close> has changed.  \<open>Msgs\<close>: the context holds a new array of messages.
  \<open>onMouseEnter={() => setShowText(true)}\<close>, \<open>onMouseLeave={() => setShowText(false)}\<close>.
\<close>

fun cursor_step :: "cursor_event \<Rightarrow> cursor \<Rightarrow> cursor" where
  "cursor_step (Move x y) s =
     (if x = p_x s \<and> y = p_y s then s else tooltip_effect (s\<lparr>p_x := x, p_y := y\<rparr>))"
| "cursor_step (Msgs msgs) s = message_effect msgs s"
| "cursor_step MouseEnter s = s\<lparr>showText := True\<rparr>"
| "cursor_step MouseLeave s = s\<lparr>showText := False\<rparr>"
| "cursor_step (Wait d) s = advance d s"

definition cursor_run :: "cursor_event list \<Rightarrow> cursor \<Rightarrow> cursor" where
  "cursor_run evs s = fold cursor_step evs s"

text \<open>
  The mount: \<open>useState(false)\<close>, \<open>useState("")\<close>, then both effects in the order of the
  source.
\<close>

definition cursor_mount :: "int \<Rightarrow> int \<Rightarrow> jsstring \<Rightarrow> message list \<Rightarrow> cursor" where
  "cursor_mount x y sid msgs =
     message_effect msgs
       (tooltip_effect
          \<lparr>p_x = x, p_y = y, p_socketId = sid, showText = False, msgText = [],
           fadeOutTimeout = None, timers = [], next_tid = 1, now = 0\<rparr>)"

text \<open>
  The render of the bubble, for the prop \<open>headerText\<close>:
  \<^verbatim>\<open>
    {showText && headerText && (
      <motion.div ...>
        <div className="text-nowrap">{headerText}</div>
        {msgText && <div className="font-mono w-44">{msgText}</div>}
      </motion.div>)}
  \<close>
  A string is truthy when it is not empty.  The result is the message text that the
  bubble displays, if it displays one.
\<close>

definition bubble :: "jsstring \<Rightarrow> cursor \<Rightarrow> jsstring option" where
  "bubble headerText s =
     (if showText s \<and> headerText \<noteq> [] \<and> msgText s \<noteq> [] then Some (msgText s) else None)"

text \<open>
  The spec's \<open>clamp(v, lo, hi)\<close>, written from its words: \<open>v\<close> kept between \<open>lo\<close> and
  \<open>hi\<close>.
\<close>

definition spec_clamp :: "nat \<Rightarrow> nat \<Rightarrow> nat \<Rightarrow> nat" where
  "spec_clamp v lo hi = (if v < lo then lo else if hi < v then hi else v)"

section \<open>Cursor: the states the timeouts can be in\<close>

text \<open>
  What holds of the pending timeouts in every state that the component reaches: the
  identifiers are distinct and were all returned by \<open>setTimeout\<close> already, and a pending
  \<open>FadeOut\<close> timeout is the one that the next cleanup of the first effect clears.
\<close>

definition cursor_wf :: "cursor \<Rightarrow> bool" where
  "cursor_wf s \<longleftrightarrow>
     distinct (map tid (timers s))
     \<and> (\<forall>t \<in> set (timers s). tid t < next_tid s)
     \<and> (\<forall>t \<in> set (timers s). act t = FadeOut \<longrightarrow> fadeOutTimeout s = Some (tid t))
     \<and> (\<forall>i. fadeOutTimeout s = Some i \<longrightarrow> i < next_tid s)"

text \<open>No timeout that clears the message falls due within the next \<open>d\<close> milliseconds.\<close>

definition clear_quiet :: "nat \<Rightarrow> cursor \<Rightarrow> bool" where
  "clear_quiet d s \<longleftrightarrow> (\<forall>t \<in> set (timers s). act t = ClearMsg \<longrightarrow> now s + d < due t)"

text \<open>The timeout \<open>c\<close> is pending and is the only one that clears the message.\<close>

definition sole_clear :: "timer \<Rightarrow> cursor \<Rightarrow> bool" where
  "sole_clear c s \<longleftrightarrow>
     cursor_wf s \<and> act c = ClearMsg \<and> c \<in> set (timers s)
     \<and> (\<forall>t \<in> set (timers s). act t = ClearMsg \<longrightarrow> t = c)"

text \<open>The times at which the pending \<open>FadeOut\<close> timeouts fall due.\<close>

definition fade_dues :: "cursor \<Rightarrow> nat list" where
  "fade_dues s = map due (filter (\<lambda>t. act t = FadeOut) (timers s))"

text \<open>
  From this state, with no event arriving, the tooltip is visible for the next 3000 ms
  and hidden when they have passed.
\<close>

definition hides_after_3000 :: "cursor \<Rightarrow> bool" where
  "hides_after_3000 s \<longleftrightarrow> (\<forall>d<3000. showText (advance d s)) \<and> \<not> showText (advance 3000 s)"

text \<open>
  The step from \<open>s\<close> to \<open>s'\<close> restarts the window of the tooltip: the tooltip is shown,
  the one pending \<open>FadeOut\<close> timeout is a new one, due 3000 ms after the step, and when no
  timeout that clears the message falls due in those 3000 ms the tooltip is hidden
  exactly at their end.
\<close>

definition window_restarts :: "cursor \<Rightarrow> cursor \<Rightarrow> bool" where
  "window_restarts s s' \<longleftrightarrow>
     showText s' \<and> fade_dues s' = [now s + 3000]
     \<and> (clear_quiet 3000 s' \<longrightarrow> hides_after_3000 s')"

section \<open>Example data\<close>

text \<open>
  A full record of user \<open>"a"\<close>, an incremental update of its position, and an
  incremental payload that has no \<open>socketId\<close>.
\<close>

definition user_a :: obj where
  "user_a = [''socketId'' \<mapsto> JStr [0x61], ''name'' \<mapsto> JStr [0x6E], ''color'' \<mapsto> JStr [0x63],
             ''pos'' \<mapsto> JObj [''x'' \<mapsto> JNum 1, ''y'' \<mapsto> JNum 2]]"

definition move_a :: obj where
  "move_a = [''socketId'' \<mapsto> JStr [0x61], ''pos'' \<mapsto> JObj [''x'' \<mapsto> JNum 100, ''y'' \<mapsto> JNum 200]]"

definition user_b :: obj where
  "user_b = [''socketId'' \<mapsto> JStr [0x62], ''name'' \<mapsto> JStr [0x6D], ''color'' \<mapsto> JStr [0x64],
             ''pos'' \<mapsto> JObj [''x'' \<mapsto> JNum 7, ''y'' \<mapsto> JNum 8]]"

definition move_anonymous :: obj where
  "move_anonymous = [''pos'' \<mapsto> JObj [''x'' \<mapsto> JNum 5, ''y'' \<mapsto> JNum 6]]"

text \<open>
  A \<open>RemoteCursors\<close> on a desktop viewport with the socket \<open>"a"\<close>, its two listeners
  registered, that has not published yet.
\<close>

definition rc0 :: remote_cursors where
  "rc0 = \<lparr>ctx_socket = Some (JStr [0x61]), is_mobile = False, users = [],
           listeners = [(JStr [0x61], On_cursor_changed), (JStr [0x61], On_users_updated)],
           cleanup = Some (JStr [0x61]), th = throttle_idle, callback_runs = [], sent = [],
           clock = 0, mouse = (0, 0)\<rparr>"

text \<open>
  Messages of user \<open>"a"\<close>: two of 40 code units, one of 8 and one of 35.
\<close>

definition msg_long1 :: message where
  "msg_long1 = \<lparr>socketId = [0x61], content = replicate 40 0x68, time = 0, username = [0x6E]\<rparr>"

definition msg_long2 :: message where
  "msg_long2 = \<lparr>socketId = [0x61], content = replicate 40 0x69, time = 3000, username = [0x6E]\<rparr>"

definition msg_short :: message where
  "msg_short = \<lparr>socketId = [0x61], content = replicate 8 0x68, time = 0, username = [0x6E]\<rparr>"

definition msg_35 :: message where
  "msg_35 = \<lparr>socketId = [0x61], content = replicate 35 0x68, time = 0, username = [0x6E]\<rparr>"

text \<open>Two more, of 45 and of 20 code units.\<close>

definition msg_45 :: message where
  "msg_45 = \<lparr>socketId = [0x61], content = replicate 45 0x68, time = 0, username = [0x6E]\<rparr>"

definition msg_20 :: message where
  "msg_20 = \<lparr>socketId = [0x61], content = replicate 20 0x68, time = 0, username = [0x6E]\<rparr>"

text \<open>
  The cursor of user \<open>"a"\<close> at the origin, by the parts of its state that change.
\<close>

definition cur :: "bool \<Rightarrow> jsstring \<Rightarrow> nat option \<Rightarrow> timer list \<Rightarrow> nat \<Rightarrow> nat \<Rightarrow> cursor" where
  "cur sh mt f ts n t =
     \<lparr>p_x = 0, p_y = 0, p_socketId = [0x61], showText = sh, msgText = mt,
      fadeOutTimeout = f, timers = ts, next_tid = n, now = t\<rparr>"

text \<open>That cursor one second after its mount, when nothing else has happened.\<close>

definition cursor_1000 :: cursor where
  "cursor_1000 = cur True [] (Some 1) [\<lparr>tid = 1, due = 3000, act = FadeOut\<rparr>] 2 1000"

section \<open>Facts about the Map\<close>

lemma Map_has_get: "Map_has m k \<longleftrightarrow> Map_get m k \<noteq> None"
  by (induction m) (auto split: if_splits)

lemma Map_get_set: "Map_get (Map_set m k v) k' = (if k' = k then Some v else Map_get m k')"
  by (induction m) auto

lemma Map_keys_set: "set (Map_keys (Map_set m k v)) = insert k (set (Map_keys m))"
  by (induction m k v rule: Map_set.induct) (simp_all add: Map_keys_def insert_commute)

lemma Map_keys_get: "k \<in> set (Map_keys m) \<longleftrightarrow> Map_get m k \<noteq> None"
  by (induction m) (auto simp: Map_keys_def split: if_splits)

lemma Map_keys_distinct: "distinct (Map_keys m) \<Longrightarrow> distinct (Map_keys (Map_set m k v))"
proof (induction m)
  case Nil
  then show ?case by (simp add: Map_keys_def)
next
  case (Cons e m)
  obtain k' v' where e: "e = (k', v')" by (cases e)
  have "set (Map_keys (Map_set m k v)) = insert k (set (Map_keys m))"
    by (rule Map_keys_set)
  with Cons e show ?case
    by (auto simp: Map_keys_def)
qed

lemma users_updated_keys_from:
  "set (Map_keys (fold (\<lambda>user newMap. Map_set newMap (js_get user ''socketId'') user) data m))
     = set (Map_keys m) \<union> (\<lambda>user. js_get user ''socketId'') ` set data"
  by (induction data arbitrary: m) (auto simp: Map_keys_set)

lemma users_updated_distinct_from:
  "distinct (Map_keys m) \<Longrightarrow>
   distinct (Map_keys (fold (\<lambda>user newMap. Map_set newMap (js_get user ''socketId'') user) data m))"
  by (induction data arbitrary: m) (auto simp: Map_keys_distinct)


section \<open>The registry of users\<close>

lemma spread2_absent: "b f = None \<Longrightarrow> spread2 a b f = a f"
  by (simp add: spread2_def map_add_def)

lemma spread2_present: "b f = Some v \<Longrightarrow> spread2 a b f = Some v"
  by (simp add: spread2_def map_add_def)

lemma cursor_changed_get:
  "Map_get (cursor_changed prev data) k =
     (if k = js_get data ''socketId''
      then Some (case Map_get prev k of None \<Rightarrow> data | Some r \<Rightarrow> spread2 r data)
      else Map_get prev k)"
  by (auto simp: cursor_changed_def Map_get_set Map_has_get split: option.splits)

text \<open>
  C1.  Merge preservation.  When the registry holds a record \<open>R\<close> under the id of an
  incremental update \<open>U\<close>, the handler of \<open>cursor-changed\<close> leaves under that id a record
  in which every field that \<open>U\<close> does not have keeps the value it had in \<open>R\<close>, and every
  field that \<open>U\<close> has takes the value of \<open>U\<close>.
\<close>

theorem cursor_changed_merge:
  assumes "Map_get prev (js_get U ''socketId'') = Some R"
  shows "\<exists>R'. Map_get (cursor_changed prev U) (js_get U ''socketId'') = Some R'
            \<and> (\<forall>f. U f = None \<longrightarrow> R' f = R f)
            \<and> (\<forall>f v. U f = Some v \<longrightarrow> R' f = Some v)"
  using assms by (simp add: cursor_changed_get spread2_absent spread2_present)

theorem cursor_changed_merge_witness:
  "Map_get [(JStr [0x61], user_a)] (js_get move_a ''socketId'') = Some user_a \<and>
   (\<exists>R'. Map_get (cursor_changed [(JStr [0x61], user_a)] move_a) (js_get move_a ''socketId'') = Some R'
       \<and> R' ''name'' = Some (JStr [0x6E]) \<and> R' ''color'' = Some (JStr [0x63])
       \<and> R' ''pos'' = Some (JObj [''x'' \<mapsto> JNum 100, ''y'' \<mapsto> JNum 200]))"
proof -
  have h: "Map_get [(JStr [0x61], user_a)] (js_get move_a ''socketId'') = Some user_a"
    by (simp add: js_get_def move_a_def)
  from cursor_changed_merge [OF h] obtain R' where
    get: "Map_get (cursor_changed [(JStr [0x61], user_a)] move_a) (js_get move_a ''socketId'') = Some R'"
    and keep: "\<And>f. move_a f = None \<Longrightarrow> R' f = user_a f"
    and take: "\<And>f v. move_a f = Some v \<Longrightarrow> R' f = Some v"
    by blast
  have "R' ''name'' = Some (JStr [0x6E])"
    using keep [of "''name''"] by (simp add: move_a_def user_a_def)
  moreover have "R' ''color'' = Some (JStr [0x63])"
    using keep [of "''color''"] by (simp add: move_a_def user_a_def)
  moreover have "R' ''pos'' = Some (JObj [''x'' \<mapsto> JNum 100, ''y'' \<mapsto> JNum 200])"
    using take [of "''pos''"] by (simp add: move_a_def)
  ultimately show ?thesis using h get by blast
qed

text \<open>
  C2.  Snapshot replacement.  After the handler of \<open>users-updated\<close> has run on a snapshot
  \<open>S\<close>, the keys of the registry are exactly the ids that occur in \<open>S\<close>, each once,
  whatever the registry held before.
\<close>

theorem users_updated_keys:
  "set (Map_keys (users_updated prev S)) = (\<lambda>user. js_get user ''socketId'') ` set S
   \<and> distinct (Map_keys (users_updated prev S))"
  unfolding users_updated_def
  using users_updated_keys_from [of S "[]"] users_updated_distinct_from [of "[]" S]
  by (simp add: Map_keys_def)

theorem users_updated_keys_witness:
  "set (Map_keys (users_updated [(JStr [0x7A], user_a)] [user_a, user_b, move_a]))
     = {JStr [0x61], JStr [0x62]}"
  using users_updated_keys [of "[(JStr [0x7A], user_a)]" "[user_a, user_b, move_a]"]
  by (simp add: js_get_def user_a_def user_b_def move_a_def insert_commute)

text \<open>
  C3, as the code has it.  An incremental update whose payload has no \<open>socketId\<close> is not
  rejected: the handler stores it under the key \<open>undefined\<close>, as a new entry or merged
  into the entry already stored under \<open>undefined\<close>, and leaves the entries under every
  other key as they were.
\<close>

theorem cursor_changed_missing_id:
  assumes "U ''socketId'' = None"
  shows "Map_has (cursor_changed prev U) JUndefined
       \<and> Map_get (cursor_changed prev U) JUndefined
           = Some (case Map_get prev JUndefined of None \<Rightarrow> U | Some r \<Rightarrow> spread2 r U)
       \<and> (\<forall>k. k \<noteq> JUndefined \<longrightarrow> Map_get (cursor_changed prev U) k = Map_get prev k)"
proof -
  have k: "js_get U ''socketId'' = JUndefined"
    using assms by (simp add: js_get_def)
  show ?thesis
    by (simp add: Map_has_get cursor_changed_get k)
qed

theorem cursor_changed_missing_id_witness:
  "move_anonymous ''socketId'' = None
   \<and> Map_has (cursor_changed [(JStr [0x61], user_a)] move_anonymous) JUndefined
   \<and> Map_get (cursor_changed [(JStr [0x61], user_a)] move_anonymous) JUndefined = Some move_anonymous
   \<and> Map_get (cursor_changed [(JStr [0x61], user_a)] move_anonymous) (JStr [0x61]) = Some user_a"
  using cursor_changed_missing_id [of move_anonymous "[(JStr [0x61], user_a)]"]
  by (simp add: move_anonymous_def)

text \<open>
  The claim C3 as the spec states it fails: on the registry that holds user \<open>"a"\<close>, a
  payload without \<open>socketId\<close> changes the registry, which then has an entry under the key
  \<open>undefined\<close>.
\<close>

theorem cursor_changed_missing_id_counterexample:
  "move_anonymous ''socketId'' = None
   \<and> cursor_changed [(JStr [0x61], user_a)] move_anonymous \<noteq> [(JStr [0x61], user_a)]
   \<and> Map_keys (cursor_changed [(JStr [0x61], user_a)] move_anonymous) = [JStr [0x61], JUndefined]"
  by (simp add: move_anonymous_def cursor_changed_def js_get_def Map_keys_def)

text \<open>
  C9.  Self-exclusion.  The users for which the render paints a cursor are those of the
  registry whose \<open>socketId\<close> differs from the id of the local socket; none of them has
  the local id.
\<close>

theorem rendered_users_exclude_self:
  "(\<forall>user \<in> set (rendered_users registry socket). js_get user ''socketId'' \<noteq> socket_id socket)
   \<and> set (rendered_users registry socket)
       = {user \<in> set (Map_values registry). js_get user ''socketId'' \<noteq> socket_id socket}"
  by (auto simp: rendered_users_def)

theorem rendered_users_exclude_self_witness:
  "rendered_users [(JStr [0x61], user_a), (JStr [0x62], user_b)] (Some (JStr [0x61])) = [user_b]
   \<and> js_get user_b ''socketId'' \<noteq> socket_id (Some (JStr [0x61]))
   \<and> js_get user_a ''socketId'' = socket_id (Some (JStr [0x61]))"
  using rendered_users_exclude_self [of "[(JStr [0x61], user_a), (JStr [0x62], user_b)]" "Some (JStr [0x61])"]
  by (simp add: rendered_users_def Map_values_def js_get_def socket_id_def user_a_def user_b_def)

section \<open>The throttled publisher\<close>

lemma calls_after_open:
  "pending (th s) = Some c \<Longrightarrow> clock s + sum_list (map fst rest) < window_end (th s) \<Longrightarrow>
   sent (calls_after rest s) = sent s
   \<and> callback_runs (calls_after rest s) = callback_runs s
   \<and> ctx_socket (calls_after rest s) = ctx_socket s
   \<and> pending (th (calls_after rest s)) = Some (last (c # map snd rest))
   \<and> window_end (th (calls_after rest s)) = window_end (th s)
   \<and> clock (calls_after rest s) = clock s + sum_list (map fst rest)"
proof (induction rest arbitrary: s c)
  case Nil
  then show ?case by simp
next
  case (Cons e rest)
  obtain d c' where e: "e = (d, c')" by (cases e)
  let ?s1 = "handleMouseMove c' (elapse d s)"
  from Cons.prems e have open1: "\<not> window_end (th s) \<le> clock s + d" by simp
  have el: "elapse d s = s\<lparr>clock := clock s + d\<rparr>"
    using Cons.prems(1) open1 by (simp add: elapse_def throttle_elapse_def)
  have p1: "pending (th ?s1) = Some c'"
    using Cons.prems(1) by (simp add: el handleMouseMove_def throttle_call_def)
  have w1: "window_end (th ?s1) = window_end (th s)"
    using Cons.prems(1) by (simp add: el handleMouseMove_def throttle_call_def)
  have c1: "clock ?s1 = clock s + d"
    by (simp add: el handleMouseMove_def)
  have s1: "sent ?s1 = sent s" "callback_runs ?s1 = callback_runs s"
    "ctx_socket ?s1 = ctx_socket s"
    by (simp_all add: el handleMouseMove_def)
  have "clock ?s1 + sum_list (map fst rest) < window_end (th ?s1)"
    using Cons.prems(2) e c1 w1 by simp
  from Cons.IH [OF p1 this] show ?case
    using e c1 w1 s1 by (simp add: add.assoc)
qed

text \<open>
  C4.  Throttle coalescing.  After a first call that opens a window, further calls within
  the 200 ms of the window and the window elapsing, the throttled callback has run
  exactly once, with the coordinates of the last call; on a socket it has emitted exactly
  one \<open>cursor-change\<close>, which carries those coordinates, and nothing waits in the
  throttle: the calls in between were coalesced.
\<close>

theorem throttle_coalesces:
  assumes "pending (th s) = None"
    and "sum_list (map fst rest) < 200"
    and "200 \<le> sum_list (map fst rest) + r"
  shows "callback_runs (elapse r (calls_after rest (handleMouseMove c1 s)))
           = callback_runs s @ [last (c1 # map snd rest)]
       \<and> (ctx_socket s = Some i \<longrightarrow>
            sent (elapse r (calls_after rest (handleMouseMove c1 s)))
              = sent s @ [\<lparr>ev_name = ''cursor-change'', ev_pos = last (c1 # map snd rest),
                           ev_socketId = i\<rparr>])
       \<and> pending (th (elapse r (calls_after rest (handleMouseMove c1 s)))) = None"
proof -
  let ?s0 = "handleMouseMove c1 s"
  let ?s1 = "calls_after rest ?s0"
  have p0: "pending (th ?s0) = Some c1" and w0: "window_end (th ?s0) = clock s + 200"
    and c0: "clock ?s0 = clock s" and s0: "sent ?s0 = sent s"
    and r0: "callback_runs ?s0 = callback_runs s" and k0: "ctx_socket ?s0 = ctx_socket s"
    using assms(1) by (simp_all add: handleMouseMove_def throttle_call_def)
  have "clock ?s0 + sum_list (map fst rest) < window_end (th ?s0)"
    using assms(2) c0 w0 by simp
  from calls_after_open [OF p0 this]
  have s1: "sent ?s1 = sent s"
    and r1: "callback_runs ?s1 = callback_runs s"
    and k1: "ctx_socket ?s1 = ctx_socket s"
    and p1: "pending (th ?s1) = Some (last (c1 # map snd rest))"
    and w1: "window_end (th ?s1) = clock s + 200"
    and c1: "clock ?s1 = clock s + sum_list (map fst rest)"
    using s0 r0 k0 w0 c0 by simp_all
  have due: "window_end (th ?s1) \<le> clock ?s1 + r"
    using assms(3) w1 c1 by simp
  show ?thesis
    using p1 due s1 r1 k1
    by (simp add: elapse_def throttle_elapse_def publish_def throttle_idle_def)
qed

theorem throttle_coalesces_witness:
  "pending (th rc0) = None
   \<and> ctx_socket rc0 = Some (JStr [0x61])
   \<and> callback_runs (elapse 100 (calls_after [(50, (3, 4)), (50, (5, 6))] (handleMouseMove (1, 2) rc0)))
       = [(5, 6)]
   \<and> sent (elapse 100 (calls_after [(50, (3, 4)), (50, (5, 6))] (handleMouseMove (1, 2) rc0)))
       = [\<lparr>ev_name = ''cursor-change'', ev_pos = (5, 6), ev_socketId = JStr [0x61]\<rparr>]"
  using throttle_coalesces [of rc0 "[(50, (3, 4)), (50, (5, 6))]" 100 "(1, 2)" "JStr [0x61]"]
  by (simp add: rc0_def throttle_idle_def)

section \<open>The mobile viewport\<close>

text \<open>
  A component that is mounted on a mobile viewport and stays on one registers no
  listener and never calls \<open>handleMouseMove\<close>: its users stay those of the mount and it
  emits nothing, whatever arrives and however the pointer and the socket change.
\<close>

lemma rc_step_mobile:
  assumes "is_mobile s" "listeners s = []" "cleanup s = None" "pending (th s) = None"
    and "ev \<noteq> Viewport False"
  shows "is_mobile (rc_step ev s) \<and> listeners (rc_step ev s) = [] \<and> cleanup (rc_step ev s) = None
       \<and> pending (th (rc_step ev s)) = None \<and> users (rc_step ev s) = users s
       \<and> sent (rc_step ev s) = sent s \<and> callback_runs (rc_step ev s) = callback_runs s"
proof (cases ev)
  case (Viewport b)
  with assms(5) have "b" by simp
  with Viewport assms show ?thesis by simp
qed (use assms in \<open>simp_all add: deliver_cursor_changed_def deliver_users_updated_def
        pointer_effect_def elapse_def throttle_elapse_def listen_effect_def run_cleanup_def
        split: option.splits\<close>)

lemma rc_run_mobile:
  "is_mobile s \<Longrightarrow> listeners s = [] \<Longrightarrow> cleanup s = None \<Longrightarrow> pending (th s) = None \<Longrightarrow>
   stays_mobile evs \<Longrightarrow>
   users (rc_run evs s) = users s \<and> sent (rc_run evs s) = sent s
   \<and> callback_runs (rc_run evs s) = callback_runs s \<and> listeners (rc_run evs s) = []"
proof (induction evs arbitrary: s)
  case Nil
  then show ?case by (simp add: rc_run_def)
next
  case (Cons ev evs)
  from Cons.prems(5) have ev: "ev \<noteq> Viewport False" and rest: "stays_mobile evs"
    by (auto simp: stays_mobile_def)
  note st = rc_step_mobile [OF Cons.prems(1-4) ev]
  from st have a: "is_mobile (rc_step ev s)" "listeners (rc_step ev s) = []"
    "cleanup (rc_step ev s) = None" "pending (th (rc_step ev s)) = None"
    by blast+
  from Cons.IH [OF a rest] st show ?case
    by (simp add: rc_run_def)
qed

lemma mobile_since_mount_inert:
  assumes "stays_mobile evs"
  shows "listeners (rc_mount socket0 True users0 c) = []
       \<and> users (rc_run evs (rc_mount socket0 True users0 c)) = users0
       \<and> sent (rc_run evs (rc_mount socket0 True users0 c)) = []
       \<and> callback_runs (rc_run evs (rc_mount socket0 True users0 c)) = []
       \<and> listeners (rc_run evs (rc_mount socket0 True users0 c)) = []"
proof -
  have m: "is_mobile (rc_mount socket0 True users0 c)" "listeners (rc_mount socket0 True users0 c) = []"
    "cleanup (rc_mount socket0 True users0 c) = None" "pending (th (rc_mount socket0 True users0 c)) = None"
    by (simp_all add: rc_mount_def pointer_effect_def listen_effect_def throttle_idle_def
        split: option.splits)
  from rc_run_mobile [OF m assms] m(2) show ?thesis
    by (simp add: rc_mount_def pointer_effect_def listen_effect_def split: option.splits)
qed

text \<open>The same events on a desktop viewport do change the users and do publish.\<close>

lemma desktop_not_inert:
  "users (rc_run [Recv_users_updated (JStr [0x61]) [user_b], Pointer (3, 4), Elapse 200]
            (rc_mount (Some (JStr [0x61])) False [] (1, 2))) = [(JStr [0x62], user_b)]
   \<and> sent (rc_run [Recv_users_updated (JStr [0x61]) [user_b], Pointer (3, 4), Elapse 200]
            (rc_mount (Some (JStr [0x61])) False [] (1, 2)))
       = [\<lparr>ev_name = ''cursor-change'', ev_pos = (3, 4), ev_socketId = JStr [0x61]\<rparr>]"
  by (simp add: rc_run_def rc_mount_def pointer_effect_def listen_effect_def throttle_idle_def
      deliver_users_updated_def users_updated_def js_get_def user_b_def handleMouseMove_def
      throttle_call_def elapse_def throttle_elapse_def publish_def)

text \<open>
  C10.  The code at the failing input: the component is mounted on a desktop viewport
  with the socket \<open>"a"\<close>, the viewport becomes mobile, and a \<open>users-updated\<close> event
  arrives.  The cleanup has removed the listener of \<open>cursor-changed\<close> only: on the mobile
  viewport the listener of \<open>users-updated\<close> is still registered, and its handler replaces
  the users.
\<close>

theorem mobile_viewport_keeps_listener:
  "is_mobile (rc_run [Viewport True] (rc_mount (Some (JStr [0x61])) False [] (1, 2)))
   \<and> listeners (rc_run [Viewport True] (rc_mount (Some (JStr [0x61])) False [] (1, 2)))
       = [(JStr [0x61], On_users_updated)]
   \<and> users (rc_run [Viewport True] (rc_mount (Some (JStr [0x61])) False [] (1, 2))) = []
   \<and> users (rc_run [Viewport True, Recv_users_updated (JStr [0x61]) [user_b]]
              (rc_mount (Some (JStr [0x61])) False [] (1, 2)))
       = [(JStr [0x62], user_b)]"
  by (simp add: rc_run_def rc_mount_def pointer_effect_def listen_effect_def run_cleanup_def
      throttle_idle_def deliver_users_updated_def users_updated_def js_get_def user_b_def
      handleMouseMove_def throttle_call_def)

section \<open>Cursor: time passing\<close>

text \<open>
  While no timeout falls due only the clock moves, and a wait can be cut at its last
  millisecond.
\<close>

lemma tick_idle:
  assumes "\<forall>t \<in> set (timers s). Suc (now s) < due t"
  shows "tick s = s\<lparr>now := Suc (now s)\<rparr>"
proof -
  have "filter (\<lambda>t. due t \<le> Suc (now s)) (timers s) = []"
    using assms by (auto simp: filter_empty_conv)
  then show ?thesis by (simp add: tick_def)
qed

lemma advance_idle:
  "\<forall>t \<in> set (timers s). now s + d < due t \<Longrightarrow> advance d s = s\<lparr>now := now s + d\<rparr>"
proof (induction d arbitrary: s)
  case 0
  show ?case by simp
next
  case (Suc d)
  have t: "tick s = s\<lparr>now := Suc (now s)\<rparr>"
    using Suc.prems by (intro tick_idle) auto
  have "\<forall>t \<in> set (timers (tick s)). now (tick s) + d < due t"
    using Suc.prems by (simp add: t)
  from Suc.IH [OF this] show ?case by (simp add: t)
qed

lemma advance_add: "advance (a + b) s = advance b (advance a s)"
  by (induction a arbitrary: s) simp_all

lemma advance_Suc_end: "advance (Suc d) s = tick (advance d s)"
  using advance_add [of d 1 s] by simp

lemma advance_then_tick: "advance (d + 1) s = tick (advance d s)"
  using advance_Suc_end [of d s] by simp

section \<open>Cursor: every reached state is well-formed\<close>

text \<open>
  \<open>cursor_wf\<close> holds after the mount and is kept by every effect, callback and event.
\<close>

lemma tooltip_effect_eq:
  "tooltip_effect s =
     s\<lparr>showText := True,
       timers := filter (\<lambda>t. Some (tid t) \<noteq> fadeOutTimeout s) (timers s)
                 @ [\<lparr>tid = next_tid s, due = now s + 3000, act = FadeOut\<rparr>],
       next_tid := Suc (next_tid s),
       fadeOutTimeout := Some (next_tid s)\<rparr>"
  by (cases "fadeOutTimeout s") (simp_all add: tooltip_effect_def setTimeout_def clearTimeout_def Let_def)

lemma wf_tooltip_effect: "cursor_wf s \<Longrightarrow> cursor_wf (tooltip_effect s)"
  by (auto simp: cursor_wf_def tooltip_effect_eq distinct_map_filter less_Suc_eq split: option.splits)

lemma wf_setTimeout_ClearMsg: "cursor_wf s \<Longrightarrow> cursor_wf (setTimeout ClearMsg d s)"
  by (auto simp: cursor_wf_def setTimeout_def less_Suc_eq split: option.splits)

lemma wf_clearTimeout: "cursor_wf s \<Longrightarrow> cursor_wf (clearTimeout i s)"
  by (auto simp: cursor_wf_def clearTimeout_def distinct_map_filter split: option.splits)

lemma wf_msgText_update: "cursor_wf (s\<lparr>msgText := v\<rparr>) = cursor_wf s"
  by (simp add: cursor_wf_def)

lemma wf_showText_update: "cursor_wf (s\<lparr>showText := b\<rparr>) = cursor_wf s"
  by (simp add: cursor_wf_def)

lemma wf_now_update: "cursor_wf (s\<lparr>now := n\<rparr>) = cursor_wf s"
  by (simp add: cursor_wf_def)

lemma wf_pos_update: "cursor_wf (s\<lparr>p_x := x, p_y := y\<rparr>) = cursor_wf s"
  by (simp add: cursor_wf_def)

lemma wf_setMsgText: "cursor_wf s \<Longrightarrow> cursor_wf (setMsgText v s)"
  by (simp add: setMsgText_def wf_tooltip_effect wf_msgText_update)

lemma wf_message_effect: "cursor_wf s \<Longrightarrow> cursor_wf (message_effect msgs s)"
  by (simp add: message_effect_def wf_setMsgText wf_setTimeout_ClearMsg split: option.splits)

lemma wf_fire: "cursor_wf s \<Longrightarrow> cursor_wf (fire t s)"
  by (cases "act t") (simp_all add: fire_def wf_clearTimeout wf_showText_update wf_setMsgText)

lemma wf_fold_fire: "cursor_wf s \<Longrightarrow> cursor_wf (fold fire ts s)"
  by (induction ts arbitrary: s) (simp_all add: wf_fire)

lemma wf_tick: "cursor_wf s \<Longrightarrow> cursor_wf (tick s)"
  by (simp add: tick_def wf_fold_fire wf_now_update)

lemma wf_advance: "cursor_wf s \<Longrightarrow> cursor_wf (advance d s)"
  by (induction d arbitrary: s) (simp_all add: wf_tick)

lemma wf_cursor_step: "cursor_wf s \<Longrightarrow> cursor_wf (cursor_step e s)"
  by (cases e) (simp_all add: wf_tooltip_effect wf_pos_update wf_message_effect wf_showText_update wf_advance)

lemma wf_cursor_run: "cursor_wf s \<Longrightarrow> cursor_wf (cursor_run evs s)"
  unfolding cursor_run_def by (induction evs arbitrary: s) (simp_all add: wf_cursor_step)

lemma wf_cursor_mount: "cursor_wf (cursor_mount x y sid msgs)"
  unfolding cursor_mount_def
  by (intro wf_message_effect wf_tooltip_effect) (simp add: cursor_wf_def)

section \<open>Cursor: the tooltip\<close>

lemma msgText_tooltip_effect: "msgText (tooltip_effect s) = msgText s"
  by (simp add: tooltip_effect_eq)

lemma msgText_setMsgText: "msgText (setMsgText v s) = v"
  by (simp add: setMsgText_def msgText_tooltip_effect)

lemma now_setMsgText: "now (setMsgText v s) = now s"
  by (simp add: setMsgText_def tooltip_effect_eq)

text \<open>
  A run of the first effect leaves one pending \<open>FadeOut\<close> timeout, the new one; when
  no timeout that clears the message falls due before it, nothing happens until it fires.
\<close>

lemma tooltip_effect_rest:
  assumes wf: "cursor_wf s"
  shows "\<forall>t \<in> set (filter (\<lambda>t. Some (tid t) \<noteq> fadeOutTimeout s) (timers s)). act t = ClearMsg"
proof
  fix t assume t: "t \<in> set (filter (\<lambda>t. Some (tid t) \<noteq> fadeOutTimeout s) (timers s))"
  then have "t \<in> set (timers s)" and "Some (tid t) \<noteq> fadeOutTimeout s" by auto
  with wf show "act t = ClearMsg"
    by (cases "act t") (auto simp: cursor_wf_def)
qed

lemma tooltip_effect_fades:
  assumes wf: "cursor_wf s"
  shows "showText (tooltip_effect s)" and "fade_dues (tooltip_effect s) = [now s + 3000]"
proof -
  show "showText (tooltip_effect s)" by (simp add: tooltip_effect_eq)
  show "fade_dues (tooltip_effect s) = [now s + 3000]"
    using tooltip_effect_rest [OF wf]
    by (auto simp: fade_dues_def tooltip_effect_eq filter_empty_conv)
qed

lemma tooltip_effect_hides:
  assumes wf: "cursor_wf s" and quiet: "clear_quiet 3000 (tooltip_effect s)"
  shows "hides_after_3000 (tooltip_effect s)"
proof -
  let ?nf = "\<lparr>tid = next_tid s, due = now s + 3000, act = FadeOut\<rparr>"
  let ?rest = "filter (\<lambda>t. Some (tid t) \<noteq> fadeOutTimeout s) (timers s)"
  let ?s' = "tooltip_effect s"
  have tm: "timers ?s' = ?rest @ [?nf]" and nw: "now ?s' = now s" and sh: "showText ?s'"
    by (simp_all add: tooltip_effect_eq)
  note rest_clear = tooltip_effect_rest [OF wf]
  have rest_late: "\<forall>t \<in> set ?rest. now s + 3000 < due t"
  proof
    fix t assume t: "t \<in> set ?rest"
    with rest_clear have "act t = ClearMsg" by blast
    moreover from t have "t \<in> set (timers ?s')" unfolding tm by simp
    ultimately show "now s + 3000 < due t"
      using quiet unfolding clear_quiet_def nw by blast
  qed
  have idle: "advance d ?s' = ?s'\<lparr>now := now s + d\<rparr>" if "d < 3000" for d
  proof -
    have "\<forall>t \<in> set (timers ?s'). now ?s' + d < due t"
      using rest_late that by (auto simp: tm nw)
    from advance_idle [OF this] show ?thesis by (simp add: nw)
  qed
  have vis: "\<forall>d<3000. showText (advance d ?s')"
    using idle sh by simp
  have "advance 3000 ?s' = tick (advance 2999 ?s')"
    using advance_Suc_end [of 2999 ?s'] by simp
  also have "\<dots> = tick (?s'\<lparr>now := now s + 2999\<rparr>)"
    using idle [of 2999] by simp
  finally have a: "advance 3000 ?s' = tick (?s'\<lparr>now := now s + 2999\<rparr>)" .
  have duel: "filter (\<lambda>t. due t \<le> Suc (now s + 2999)) (timers ?s') = [?nf]"
    using rest_late by (auto simp: tm filter_empty_conv)
  have "\<not> showText (tick (?s'\<lparr>now := now s + 2999\<rparr>))"
    using duel by (simp add: tick_def fire_def tm clearTimeout_def)
  with a have "\<not> showText (advance 3000 ?s')" by simp
  with vis show ?thesis unfolding hides_after_3000_def by blast
qed

lemma tooltip_effect_restarts:
  assumes wf: "cursor_wf q" and n: "now q = now s"
  shows "window_restarts s (tooltip_effect q)"
  unfolding window_restarts_def
  using tooltip_effect_fades [OF wf] tooltip_effect_hides [OF wf] n by simp

lemma cur_simps:
  "showText (cur sh mt f ts n t) = sh" "msgText (cur sh mt f ts n t) = mt"
  "timers (cur sh mt f ts n t) = ts" "now (cur sh mt f ts n t) = t"
  "(cur sh mt f ts n t)\<lparr>showText := b\<rparr> = cur b mt f ts n t"
  "(cur sh mt f ts n t)\<lparr>now := t'\<rparr> = cur sh mt f ts n t'"
  by (simp_all add: cur_def)

lemma cursor_mount_cur:
  "cursor_mount 0 0 [0x61] [] = cur True [] (Some 1) [\<lparr>tid = 1, due = 3000, act = FadeOut\<rparr>] 2 0"
  by (simp add: cursor_mount_def cur_def tooltip_effect_def message_effect_def at_last_def
      setTimeout_def Let_def)

lemma cursor_1000_reached: "cursor_run [Wait 1000] (cursor_mount 0 0 [0x61] []) = cursor_1000"
  using advance_idle [of "cur True [] (Some 1) [\<lparr>tid = 1, due = 3000, act = FadeOut\<rparr>] 2 0" 1000]
  by (simp add: cursor_run_def cursor_mount_cur cursor_1000_def cur_simps)

text \<open>
  The states that the cursor of user \<open>"a"\<close> passes through after its mount when a
  message of 8 code units arrives at once: the message is shown, its timeout fires after
  1000 ms and restarts the window of the tooltip, which is hidden at 4000 ms.
\<close>

lemma short_message_shown:
  "cursor_step (Msgs [msg_short]) (cursor_mount 0 0 [0x61] [])
     = cur True (replicate 8 0x68) (Some 3)
         [\<lparr>tid = 2, due = 1000, act = ClearMsg\<rparr>, \<lparr>tid = 3, due = 3000, act = FadeOut\<rparr>] 4 0"
  unfolding cursor_mount_cur
  by (simp add: message_effect_def at_last_def msg_short_def textSlice_def timeToRead_def
      setMsgText_def tooltip_effect_eq setTimeout_def cur_def)

lemma short_message_999:
  "advance 999 (cur True (replicate 8 0x68) (Some 3)
         [\<lparr>tid = 2, due = 1000, act = ClearMsg\<rparr>, \<lparr>tid = 3, due = 3000, act = FadeOut\<rparr>] 4 0)
     = cur True (replicate 8 0x68) (Some 3)
         [\<lparr>tid = 2, due = 1000, act = ClearMsg\<rparr>, \<lparr>tid = 3, due = 3000, act = FadeOut\<rparr>] 4 999"
  using advance_idle [of "cur True (replicate 8 0x68) (Some 3)
         [\<lparr>tid = 2, due = 1000, act = ClearMsg\<rparr>, \<lparr>tid = 3, due = 3000, act = FadeOut\<rparr>] 4 0" 999]
  by (simp add: cur_simps)

lemma short_message_tick:
  "tick (cur True (replicate 8 0x68) (Some 3)
         [\<lparr>tid = 2, due = 1000, act = ClearMsg\<rparr>, \<lparr>tid = 3, due = 3000, act = FadeOut\<rparr>] 4 999)
     = fire \<lparr>tid = 2, due = 1000, act = ClearMsg\<rparr>
         (cur True (replicate 8 0x68) (Some 3)
           [\<lparr>tid = 2, due = 1000, act = ClearMsg\<rparr>, \<lparr>tid = 3, due = 3000, act = FadeOut\<rparr>] 4 1000)"
  by (simp add: tick_def cur_def)

lemma short_message_fired:
  "fire \<lparr>tid = 2, due = 1000, act = ClearMsg\<rparr>
         (cur True (replicate 8 0x68) (Some 3)
           [\<lparr>tid = 2, due = 1000, act = ClearMsg\<rparr>, \<lparr>tid = 3, due = 3000, act = FadeOut\<rparr>] 4 1000)
     = cur True [] (Some 4) [\<lparr>tid = 4, due = 4000, act = FadeOut\<rparr>] 5 1000"
  by (simp add: fire_def clearTimeout_def setMsgText_def tooltip_effect_eq cur_def)

lemma short_message_1000:
  "advance 1000 (cur True (replicate 8 0x68) (Some 3)
         [\<lparr>tid = 2, due = 1000, act = ClearMsg\<rparr>, \<lparr>tid = 3, due = 3000, act = FadeOut\<rparr>] 4 0)
     = fire \<lparr>tid = 2, due = 1000, act = ClearMsg\<rparr>
         (cur True (replicate 8 0x68) (Some 3)
           [\<lparr>tid = 2, due = 1000, act = ClearMsg\<rparr>, \<lparr>tid = 3, due = 3000, act = FadeOut\<rparr>] 4 1000)"
proof -
  have "advance 1000 (cur True (replicate 8 0x68) (Some 3)
         [\<lparr>tid = 2, due = 1000, act = ClearMsg\<rparr>, \<lparr>tid = 3, due = 3000, act = FadeOut\<rparr>] 4 0)
     = tick (advance 999 (cur True (replicate 8 0x68) (Some 3)
         [\<lparr>tid = 2, due = 1000, act = ClearMsg\<rparr>, \<lparr>tid = 3, due = 3000, act = FadeOut\<rparr>] 4 0))"
    using advance_then_tick [of 999 "cur True (replicate 8 0x68) (Some 3)
         [\<lparr>tid = 2, due = 1000, act = ClearMsg\<rparr>, \<lparr>tid = 3, due = 3000, act = FadeOut\<rparr>] 4 0"]
    by simp
  then show ?thesis by (simp only: short_message_999 short_message_tick)
qed

lemma long_message_shown:
  "cursor_step (Msgs [msg_long1]) (cursor_mount 0 0 [0x61] [])
     = cur True (replicate 30 0x68 @ [0x2E, 0x2E, 0x2E]) (Some 3)
         [\<lparr>tid = 2, due = 3300, act = ClearMsg\<rparr>, \<lparr>tid = 3, due = 3000, act = FadeOut\<rparr>] 4 0"
  unfolding cursor_mount_cur
  by (simp add: message_effect_def at_last_def msg_long1_def textSlice_def timeToRead_def
      setMsgText_def tooltip_effect_eq setTimeout_def cur_def dots_def)

lemma clear_fires_reached:
  "cursor_run [Msgs [msg_short], Wait 1000] (cursor_mount 0 0 [0x61] [])
     = fire \<lparr>tid = 2, due = 1000, act = ClearMsg\<rparr>
         (cur True (replicate 8 0x68) (Some 3)
           [\<lparr>tid = 2, due = 1000, act = ClearMsg\<rparr>, \<lparr>tid = 3, due = 3000, act = FadeOut\<rparr>] 4 1000)"
  unfolding cursor_run_def
  by (simp only: fold_simps cursor_step.simps(5) short_message_shown short_message_1000
      id_apply o_apply)

text \<open>
  C8, as the code has it.  In every state that the cursor reaches, a change of position,
  a new message text being set and the message text being cleared by its timeout each
  show the tooltip, clear the pending \<open>FadeOut\<close> timeout and leave a single new one, due
  3000 ms later; when no timeout that clears the message falls due within those 3000 ms
  and no event arrives, the tooltip stays visible until then and is hidden exactly 3000 ms
  after the change.  Pointer-enter shows the tooltip and pointer-leave hides it at once;
  neither touches a timeout.
\<close>

theorem tooltip_window:
  "(cursor_wf s \<and> (x \<noteq> p_x s \<or> y \<noteq> p_y s) \<longrightarrow>
        window_restarts s (cursor_step (Move x y) s))
   \<and> (cursor_wf s \<and> at_last msgs = Some m \<and> socketId m = p_socketId s
        \<and> textSlice (content m) \<noteq> msgText s \<longrightarrow>
        window_restarts s (cursor_step (Msgs msgs) s))
   \<and> (cursor_wf s \<and> t \<in> set (timers s) \<and> act t = ClearMsg \<and> msgText s \<noteq> [] \<longrightarrow>
        msgText (fire t s) = [] \<and> window_restarts s (fire t s))
   \<and> showText (cursor_step MouseEnter s)
   \<and> timers (cursor_step MouseEnter s) = timers s
   \<and> \<not> showText (cursor_step MouseLeave s)
   \<and> timers (cursor_step MouseLeave s) = timers s"
proof -
  have move: "window_restarts s (cursor_step (Move x y) s)"
    if wf: "cursor_wf s" and ch: "x \<noteq> p_x s \<or> y \<noteq> p_y s"
  proof -
    let ?p = "s\<lparr>p_x := x, p_y := y\<rparr>"
    from ch have st: "cursor_step (Move x y) s = tooltip_effect ?p" by auto
    have "cursor_wf ?p" using wf by (simp add: wf_pos_update)
    from tooltip_effect_restarts [OF this, of s] show ?thesis
      unfolding st by simp
  qed
  have msg: "window_restarts s (cursor_step (Msgs msgs) s)"
    if wf: "cursor_wf s" and m: "at_last msgs = Some m" "socketId m = p_socketId s"
      and new: "textSlice (content m) \<noteq> msgText s"
  proof -
    let ?s1 = "setTimeout ClearMsg (timeToRead (textSlice (content m))) s"
    let ?q = "?s1\<lparr>msgText := textSlice (content m)\<rparr>"
    have "msgText ?s1 = msgText s" by (simp add: setTimeout_def)
    with new m have st: "cursor_step (Msgs msgs) s = tooltip_effect ?q"
      by (simp add: message_effect_def setMsgText_def)
    have "cursor_wf ?q"
      using wf by (simp add: wf_msgText_update wf_setTimeout_ClearMsg)
    moreover have "now ?q = now s" by (simp add: setTimeout_def)
    ultimately show ?thesis
      unfolding st by (rule tooltip_effect_restarts)
  qed
  have clr: "msgText (fire t s) = [] \<and> window_restarts s (fire t s)"
    if wf: "cursor_wf s" and t: "t \<in> set (timers s)" "act t = ClearMsg" and ne: "msgText s \<noteq> []"
  proof -
    let ?c = "clearTimeout (tid t) (clearTimeout (tid t) s)"
    let ?q = "?c\<lparr>msgText := []\<rparr>"
    from t(1) have "tid t \<in> set (map tid (timers s))" by simp
    then have "fire t s = setMsgText [] ?c"
      using t(2) by (simp add: fire_def)
    moreover have "msgText ?c = msgText s" by (simp add: clearTimeout_def)
    ultimately have st: "fire t s = tooltip_effect ?q"
      using ne by (simp add: setMsgText_def)
    have "cursor_wf ?q"
      using wf by (simp add: wf_msgText_update wf_clearTimeout)
    moreover have "now ?q = now s" by (simp add: clearTimeout_def)
    ultimately have "window_restarts s (tooltip_effect ?q)"
      by (rule tooltip_effect_restarts)
    moreover have "msgText (tooltip_effect ?q) = []"
      by (simp add: msgText_tooltip_effect)
    ultimately show ?thesis unfolding st by blast
  qed
  have ptr: "showText (cursor_step MouseEnter s) \<and> timers (cursor_step MouseEnter s) = timers s
      \<and> \<not> showText (cursor_step MouseLeave s) \<and> timers (cursor_step MouseLeave s) = timers s"
    by simp
  from move msg clr ptr show ?thesis by blast
qed

theorem tooltip_window_witness:
  "cursor_wf cursor_1000
   \<and> showText (cursor_step (Move 5 0) cursor_1000)
   \<and> fade_dues (cursor_step (Move 5 0) cursor_1000) = [4000]
   \<and> clear_quiet 3000 (cursor_step (Move 5 0) cursor_1000)
   \<and> showText (advance 2999 (cursor_step (Move 5 0) cursor_1000))
   \<and> \<not> showText (advance 3000 (cursor_step (Move 5 0) cursor_1000))
   \<and> cursor_wf (cursor_mount 0 0 [0x61] [])
   \<and> showText (cursor_step (Msgs [msg_short]) (cursor_mount 0 0 [0x61] []))
   \<and> fade_dues (cursor_step (Msgs [msg_short]) (cursor_mount 0 0 [0x61] [])) = [3000]
   \<and> showText (cursor_step (Msgs [msg_long1]) (cursor_mount 0 0 [0x61] []))
   \<and> clear_quiet 3000 (cursor_step (Msgs [msg_long1]) (cursor_mount 0 0 [0x61] []))
   \<and> showText (advance 2999 (cursor_step (Msgs [msg_long1]) (cursor_mount 0 0 [0x61] [])))
   \<and> \<not> showText (advance 3000 (cursor_step (Msgs [msg_long1]) (cursor_mount 0 0 [0x61] [])))
   \<and> msgText (cursor_run [Msgs [msg_short], Wait 1000] (cursor_mount 0 0 [0x61] [])) = []
   \<and> showText (cursor_run [Msgs [msg_short], Wait 1000] (cursor_mount 0 0 [0x61] []))
   \<and> fade_dues (cursor_run [Msgs [msg_short], Wait 1000] (cursor_mount 0 0 [0x61] [])) = [4000]
   \<and> clear_quiet 3000 (cursor_run [Msgs [msg_short], Wait 1000] (cursor_mount 0 0 [0x61] []))
   \<and> showText (advance 2999 (cursor_run [Msgs [msg_short], Wait 1000] (cursor_mount 0 0 [0x61] [])))
   \<and> \<not> showText (advance 3000 (cursor_run [Msgs [msg_short], Wait 1000] (cursor_mount 0 0 [0x61] [])))
   \<and> showText (cursor_step MouseEnter cursor_1000)
   \<and> \<not> showText (cursor_step MouseLeave cursor_1000)"
proof -
  let ?M = "cursor_mount 0 0 [0x61] []"
  let ?C = "\<lparr>tid = 2, due = 1000, act = ClearMsg\<rparr>"
  let ?K = "cur True (replicate 8 0x68) (Some 3) [?C, \<lparr>tid = 3, due = 3000, act = FadeOut\<rparr>] 4 1000"
  have wf1: "cursor_wf cursor_1000"
    by (simp add: cursor_wf_def cursor_1000_def cur_def)
  have ch: "(5::int) \<noteq> p_x cursor_1000 \<or> (0::int) \<noteq> p_y cursor_1000"
    by (simp add: cursor_1000_def cur_def)
  from tooltip_window [of cursor_1000 5 0] wf1 ch
  have w1: "window_restarts cursor_1000 (cursor_step (Move 5 0) cursor_1000)"
    by blast
  have q1: "clear_quiet 3000 (cursor_step (Move 5 0) cursor_1000)"
    by (simp add: clear_quiet_def tooltip_effect_eq cursor_1000_def cur_def)
  have n1: "now cursor_1000 + 3000 = 4000"
    by (simp add: cursor_1000_def cur_def)
  from w1 q1 n1 have a: "showText (cursor_step (Move 5 0) cursor_1000)"
    "fade_dues (cursor_step (Move 5 0) cursor_1000) = [4000]"
    "showText (advance 2999 (cursor_step (Move 5 0) cursor_1000))"
    "\<not> showText (advance 3000 (cursor_step (Move 5 0) cursor_1000))"
    unfolding window_restarts_def hides_after_3000_def by simp_all
  have wfM: "cursor_wf ?M" by (rule wf_cursor_mount)
  have m: "at_last [msg_short] = Some msg_short" "socketId msg_short = p_socketId ?M"
    "textSlice (content msg_short) \<noteq> msgText ?M"
    by (simp_all add: at_last_def msg_short_def cursor_mount_cur cur_def textSlice_def)
  from tooltip_window [of ?M _ _ "[msg_short]" msg_short] wfM m
  have w2: "window_restarts ?M (cursor_step (Msgs [msg_short]) ?M)"
    by blast
  have n2: "now ?M + 3000 = 3000" by (simp add: cursor_mount_cur cur_def)
  from w2 n2 have b: "showText (cursor_step (Msgs [msg_short]) ?M)"
    "fade_dues (cursor_step (Msgs [msg_short]) ?M) = [3000]"
    unfolding window_restarts_def by simp_all
  have ml: "at_last [msg_long1] = Some msg_long1" "socketId msg_long1 = p_socketId ?M"
    "textSlice (content msg_long1) \<noteq> msgText ?M"
    by (simp_all add: at_last_def msg_long1_def cursor_mount_cur cur_def textSlice_def)
  from tooltip_window [of ?M _ _ "[msg_long1]" msg_long1] wfM ml
  have w2l: "window_restarts ?M (cursor_step (Msgs [msg_long1]) ?M)"
    by blast
  have q2l: "clear_quiet 3000 (cursor_step (Msgs [msg_long1]) ?M)"
    unfolding long_message_shown by (simp add: clear_quiet_def cur_def)
  from w2l q2l have bl: "showText (cursor_step (Msgs [msg_long1]) ?M)"
    "showText (advance 2999 (cursor_step (Msgs [msg_long1]) ?M))"
    "\<not> showText (advance 3000 (cursor_step (Msgs [msg_long1]) ?M))"
    unfolding window_restarts_def hides_after_3000_def by simp_all
  have wfK: "cursor_wf ?K" by (simp add: cursor_wf_def cur_def)
  have k: "?C \<in> set (timers ?K)" "act ?C = ClearMsg" "msgText ?K \<noteq> []"
    by (simp_all add: cur_def)
  from tooltip_window [of ?K _ _ _ _ ?C] wfK k
  have w3: "msgText (fire ?C ?K) = []" "window_restarts ?K (fire ?C ?K)"
    by blast+
  have q3: "clear_quiet 3000 (fire ?C ?K)"
    unfolding short_message_fired by (simp add: clear_quiet_def cur_def)
  have n3: "now ?K + 3000 = 4000" by (simp add: cur_def)
  from w3 q3 n3 have c: "msgText (fire ?C ?K) = []" "showText (fire ?C ?K)"
    "fade_dues (fire ?C ?K) = [4000]"
    "showText (advance 2999 (fire ?C ?K))" "\<not> showText (advance 3000 (fire ?C ?K))"
    unfolding window_restarts_def hides_after_3000_def by simp_all
  from tooltip_window [of cursor_1000] have d: "showText (cursor_step MouseEnter cursor_1000)"
    "\<not> showText (cursor_step MouseLeave cursor_1000)"
    by blast+
  from wf1 a q1 wfM b bl q2l c q3 d show ?thesis
    unfolding clear_fires_reached by blast
qed

text \<open>
  The claim C8 as the spec states it fails for pointer-enter and for a new message.
  Entering 2000 ms after the mount does not reset the window: the tooltip is hidden at
  3000 ms, 1000 ms after the pointer entered.  Entering a hidden tooltip starts no
  timeout: 3000 ms later it is still visible.  A message of 8 code units that arrives at
  the mount is cleared after 1000 ms, which restarts the window: 3000 ms after the message
  text became non-empty the tooltip is still visible, and it is hidden at 4000 ms.
\<close>

theorem tooltip_window_counterexample:
  "showText (cursor_run [Wait 2000, MouseEnter] (cursor_mount 0 0 [0x61] []))
   \<and> now (cursor_run [Wait 2000, MouseEnter, Wait 1000] (cursor_mount 0 0 [0x61] [])) = 3000
   \<and> \<not> showText (cursor_run [Wait 2000, MouseEnter, Wait 1000] (cursor_mount 0 0 [0x61] []))
   \<and> \<not> showText (cursor_run [Wait 3000] (cursor_mount 0 0 [0x61] []))
   \<and> now (cursor_run [Wait 3000, MouseEnter, Wait 3000] (cursor_mount 0 0 [0x61] [])) = 6000
   \<and> showText (cursor_run [Wait 3000, MouseEnter, Wait 3000] (cursor_mount 0 0 [0x61] []))
   \<and> msgText (cursor_run [Msgs [msg_short]] (cursor_mount 0 0 [0x61] [])) = replicate 8 0x68
   \<and> now (cursor_run [Msgs [msg_short], Wait 3000] (cursor_mount 0 0 [0x61] [])) = 3000
   \<and> showText (cursor_run [Msgs [msg_short], Wait 3000] (cursor_mount 0 0 [0x61] []))
   \<and> now (cursor_run [Msgs [msg_short], Wait 4000] (cursor_mount 0 0 [0x61] [])) = 4000
   \<and> \<not> showText (cursor_run [Msgs [msg_short], Wait 4000] (cursor_mount 0 0 [0x61] []))"
proof -
  let ?f = "\<lparr>tid = 1, due = 3000, act = FadeOut\<rparr>"
  let ?g = "\<lparr>tid = 4, due = 4000, act = FadeOut\<rparr>"
  let ?S = "cur True (replicate 8 0x68) (Some 3)
         [\<lparr>tid = 2, due = 1000, act = ClearMsg\<rparr>, \<lparr>tid = 3, due = 3000, act = FadeOut\<rparr>] 4 0"
  have a: "advance 2000 (cur True [] (Some 1) [?f] 2 0) = cur True [] (Some 1) [?f] 2 2000"
    using advance_idle [of "cur True [] (Some 1) [?f] 2 0" 2000] by (simp add: cur_simps)
  have b: "advance 999 (cur True [] (Some 1) [?f] 2 2000) = cur True [] (Some 1) [?f] 2 2999"
    using advance_idle [of "cur True [] (Some 1) [?f] 2 2000" 999] by (simp add: cur_simps)
  have c: "tick (cur True [] (Some 1) [?f] 2 2999) = cur False [] (Some 1) [] 2 3000"
    by (simp add: tick_def fire_def clearTimeout_def cur_def)
  have "advance 1000 (cur True [] (Some 1) [?f] 2 2000) = tick (advance 999 (cur True [] (Some 1) [?f] 2 2000))"
    using advance_then_tick [of 999 "cur True [] (Some 1) [?f] 2 2000"] by simp
  then have d: "advance 1000 (cur True [] (Some 1) [?f] 2 2000) = cur False [] (Some 1) [] 2 3000"
    by (simp only: b c)
  have e: "advance 2999 (cur True [] (Some 1) [?f] 2 0) = cur True [] (Some 1) [?f] 2 2999"
    using advance_idle [of "cur True [] (Some 1) [?f] 2 0" 2999] by (simp add: cur_simps)
  have "advance 3000 (cur True [] (Some 1) [?f] 2 0) = tick (advance 2999 (cur True [] (Some 1) [?f] 2 0))"
    using advance_then_tick [of 2999 "cur True [] (Some 1) [?f] 2 0"] by simp
  then have f: "advance 3000 (cur True [] (Some 1) [?f] 2 0) = cur False [] (Some 1) [] 2 3000"
    by (simp only: e c)
  have g: "advance 3000 (cur True [] (Some 1) [] 2 3000) = cur True [] (Some 1) [] 2 6000"
    using advance_idle [of "cur True [] (Some 1) [] 2 3000" 3000] by (simp add: cur_simps)
  have h: "advance 1000 ?S = cur True [] (Some 4) [?g] 5 1000"
    by (simp only: short_message_1000 short_message_fired)
  have i: "advance 2000 (cur True [] (Some 4) [?g] 5 1000) = cur True [] (Some 4) [?g] 5 3000"
    using advance_idle [of "cur True [] (Some 4) [?g] 5 1000" 2000] by (simp add: cur_simps)
  have "advance 3000 ?S = advance 2000 (advance 1000 ?S)"
    using advance_add [of 1000 2000 ?S] by simp
  then have j: "advance 3000 ?S = cur True [] (Some 4) [?g] 5 3000"
    by (simp only: h i)
  have k: "advance 2999 (cur True [] (Some 4) [?g] 5 1000) = cur True [] (Some 4) [?g] 5 3999"
    using advance_idle [of "cur True [] (Some 4) [?g] 5 1000" 2999] by (simp add: cur_simps)
  have l: "tick (cur True [] (Some 4) [?g] 5 3999) = cur False [] (Some 4) [] 5 4000"
    by (simp add: tick_def fire_def clearTimeout_def cur_def)
  have "advance 3000 (cur True [] (Some 4) [?g] 5 1000) = tick (advance 2999 (cur True [] (Some 4) [?g] 5 1000))"
    using advance_then_tick [of 2999 "cur True [] (Some 4) [?g] 5 1000"] by simp
  then have m: "advance 3000 (cur True [] (Some 4) [?g] 5 1000) = cur False [] (Some 4) [] 5 4000"
    by (simp only: k l)
  have "advance 4000 ?S = advance 3000 (advance 1000 ?S)"
    using advance_add [of 1000 3000 ?S] by simp
  then have n: "advance 4000 ?S = cur False [] (Some 4) [] 5 4000"
    by (simp only: h m)
  have p1: "showText (cursor_run [Wait 2000, MouseEnter] (cursor_mount 0 0 [0x61] []))
   \<and> now (cursor_run [Wait 2000, MouseEnter, Wait 1000] (cursor_mount 0 0 [0x61] [])) = 3000
   \<and> \<not> showText (cursor_run [Wait 2000, MouseEnter, Wait 1000] (cursor_mount 0 0 [0x61] []))
   \<and> \<not> showText (cursor_run [Wait 3000] (cursor_mount 0 0 [0x61] []))
   \<and> now (cursor_run [Wait 3000, MouseEnter, Wait 3000] (cursor_mount 0 0 [0x61] [])) = 6000
   \<and> showText (cursor_run [Wait 3000, MouseEnter, Wait 3000] (cursor_mount 0 0 [0x61] []))"
    unfolding cursor_run_def cursor_mount_cur
    by (simp only: fold_simps cursor_step.simps a d f g cur_simps id_apply o_apply) simp
  have p2: "msgText (cursor_run [Msgs [msg_short]] (cursor_mount 0 0 [0x61] [])) = replicate 8 0x68
   \<and> now (cursor_run [Msgs [msg_short], Wait 3000] (cursor_mount 0 0 [0x61] [])) = 3000
   \<and> showText (cursor_run [Msgs [msg_short], Wait 3000] (cursor_mount 0 0 [0x61] []))
   \<and> now (cursor_run [Msgs [msg_short], Wait 4000] (cursor_mount 0 0 [0x61] [])) = 4000
   \<and> \<not> showText (cursor_run [Msgs [msg_short], Wait 4000] (cursor_mount 0 0 [0x61] []))"
    unfolding cursor_run_def
    by (simp only: fold_simps cursor_step.simps(5) short_message_shown j n cur_simps
        id_apply o_apply) simp
  from p1 p2 show ?thesis by blast
qed

section \<open>Cursor: the text of the bubble\<close>

text \<open>
  C7.  The text displayed in the bubble.  When the last message is one of this cursor's
  user, the message text of the bubble is the content cut to its first 30 code units,
  with \<open>"..."\<close> appended exactly when the content is longer than 30: a content of length
  45 is displayed as its first 30 code units and \<open>"..."\<close>, a content of length 20 is
  displayed as it is.  A text that is new and not empty is on display in the bubble at
  once.
\<close>

theorem bubble_text_truncated:
  assumes "at_last msgs = Some m" and "socketId m = p_socketId s"
  shows "msgText (cursor_step (Msgs msgs) s)
           = (if 30 < length (content m) then take 30 (content m) @ dots else content m)
       \<and> (length (content m) = 45 \<longrightarrow>
            msgText (cursor_step (Msgs msgs) s) = take 30 (content m) @ dots)
       \<and> (length (content m) = 20 \<longrightarrow> msgText (cursor_step (Msgs msgs) s) = content m)
       \<and> (headerText \<noteq> [] \<and> content m \<noteq> [] \<and> msgText s \<noteq> textSlice (content m) \<longrightarrow>
            bubble headerText (cursor_step (Msgs msgs) s)
              = Some (if 30 < length (content m) then take 30 (content m) @ dots else content m))"
proof -
  let ?text = "if 30 < length (content m) then take 30 (content m) @ dots else content m"
  have ts: "textSlice (content m) = ?text"
    by (simp add: textSlice_def)
  have st: "cursor_step (Msgs msgs) s
              = setMsgText (textSlice (content m))
                  (setTimeout ClearMsg (timeToRead (textSlice (content m))) s)"
    using assms by (simp add: message_effect_def)
  have mt: "msgText (cursor_step (Msgs msgs) s) = ?text"
    unfolding st by (simp add: msgText_setMsgText ts)
  have shown: "bubble headerText (cursor_step (Msgs msgs) s) = Some ?text"
    if h: "headerText \<noteq> []" and c: "content m \<noteq> []" and new: "msgText s \<noteq> textSlice (content m)"
  proof -
    have "msgText (setTimeout ClearMsg (timeToRead (textSlice (content m))) s) = msgText s"
      by (simp add: setTimeout_def)
    with new have "showText (cursor_step (Msgs msgs) s)"
      unfolding st by (simp add: setMsgText_def tooltip_effect_eq)
    moreover have "?text \<noteq> []" using c by (simp add: dots_def)
    ultimately show ?thesis
      using h mt by (simp add: bubble_def)
  qed
  from mt shown show ?thesis by simp
qed

theorem bubble_text_truncated_witness:
  "at_last [msg_45] = Some msg_45
   \<and> socketId msg_45 = p_socketId (cursor_mount 0 0 [0x61] [])
   \<and> length (content msg_45) = 45
   \<and> msgText (cursor_step (Msgs [msg_45]) (cursor_mount 0 0 [0x61] []))
       = replicate 30 0x68 @ [0x2E, 0x2E, 0x2E]
   \<and> bubble [0x4C] (cursor_step (Msgs [msg_45]) (cursor_mount 0 0 [0x61] []))
       = Some (replicate 30 0x68 @ [0x2E, 0x2E, 0x2E])
   \<and> length (content msg_20) = 20
   \<and> msgText (cursor_step (Msgs [msg_20]) (cursor_mount 0 0 [0x61] [])) = replicate 20 0x68
   \<and> bubble [0x4C] (cursor_step (Msgs [msg_20]) (cursor_mount 0 0 [0x61] []))
       = Some (replicate 20 0x68)"
proof -
  let ?M = "cursor_mount 0 0 [0x61] []"
  have m45: "at_last [msg_45] = Some msg_45" "socketId msg_45 = p_socketId ?M"
    and l45: "length (content msg_45) = 45"
    and c45: "content msg_45 = replicate 45 0x68"
    and n45: "[0x4C :: code_unit] \<noteq> [] \<and> content msg_45 \<noteq> [] \<and> msgText ?M \<noteq> textSlice (content msg_45)"
    by (simp_all add: at_last_def msg_45_def cursor_mount_cur cur_def textSlice_def)
  have m20: "at_last [msg_20] = Some msg_20" "socketId msg_20 = p_socketId ?M"
    and l20: "length (content msg_20) = 20"
    and c20: "content msg_20 = replicate 20 0x68"
    and n20: "[0x4C :: code_unit] \<noteq> [] \<and> content msg_20 \<noteq> [] \<and> msgText ?M \<noteq> textSlice (content msg_20)"
    by (simp_all add: at_last_def msg_20_def cursor_mount_cur cur_def textSlice_def)
  from bubble_text_truncated [OF m45, of "[0x4C]"] l45 n45
  have a: "msgText (cursor_step (Msgs [msg_45]) ?M) = take 30 (content msg_45) @ dots"
    "bubble [0x4C] (cursor_step (Msgs [msg_45]) ?M) = Some (take 30 (content msg_45) @ dots)"
    by simp_all
  from bubble_text_truncated [OF m20, of "[0x4C]"] l20 n20
  have b: "msgText (cursor_step (Msgs [msg_20]) ?M) = content msg_20"
    "bubble [0x4C] (cursor_step (Msgs [msg_20]) ?M) = Some (content msg_20)"
    by simp_all
  have t: "take 30 (content msg_45) @ dots = replicate 30 0x68 @ [0x2E, 0x2E, 0x2E]"
    by (simp add: c45 dots_def)
  from m45 l45 a b l20 show ?thesis
    unfolding t c20 by blast
qed

section \<open>Cursor: the message bubble\<close>

text \<open>
  \<open>FadeOut\<close> callbacks leave the message alone.  While a single timeout that clears the
  message is pending, the message stays until that timeout falls due and is empty once it
  has fired.
\<close>

lemma fire_FadeOut:
  assumes "act t = FadeOut"
  shows "msgText (fire t s) = msgText s" and "now (fire t s) = now s"
    and "timers (fire t s) = filter (\<lambda>u. tid u \<noteq> tid t) (timers s)"
proof -
  show "msgText (fire t s) = msgText s" "now (fire t s) = now s"
    using assms by (simp_all add: fire_def clearTimeout_def)
  show "timers (fire t s) = filter (\<lambda>u. tid u \<noteq> tid t) (timers s)"
  proof (cases "tid t \<in> set (map tid (timers s))")
    case True
    then show ?thesis using assms by (simp add: fire_def clearTimeout_def)
  next
    case False
    have "\<forall>u \<in> set (timers s). tid u \<noteq> tid t"
    proof
      fix u assume "u \<in> set (timers s)"
      then have "tid u \<in> set (map tid (timers s))" by simp
      with False show "tid u \<noteq> tid t" by auto
    qed
    then have "filter (\<lambda>u. tid u \<noteq> tid t) (timers s) = timers s"
      by simp
    with False show ?thesis by (simp add: fire_def)
  qed
qed

lemma fold_fire_FadeOut:
  "\<forall>t \<in> set L. act t = FadeOut \<Longrightarrow>
   msgText (fold fire L s) = msgText s \<and> now (fold fire L s) = now s
   \<and> timers (fold fire L s) = filter (\<lambda>u. tid u \<notin> tid ` set L) (timers s)"
proof (induction L arbitrary: s)
  case Nil
  then show ?case by simp
next
  case (Cons t L)
  then have t: "act t = FadeOut" and L: "\<forall>t \<in> set L. act t = FadeOut" by simp_all
  from Cons.IH [OF L, of "fire t s"] fire_FadeOut [OF t, of s]
  show ?case by simp
qed

lemma sole_clear_others:
  assumes "sole_clear c s" and "t \<in> set (timers s)" and "t \<noteq> c"
  shows "act t = FadeOut" and "tid t \<noteq> tid c"
proof -
  from assms show "act t = FadeOut"
    by (cases "act t") (auto simp: sole_clear_def)
  from assms have "distinct (map tid (timers s))" and "c \<in> set (timers s)"
    by (simp_all add: sole_clear_def cursor_wf_def)
  with assms(2,3) show "tid t \<noteq> tid c"
    by (auto simp: distinct_map dest: inj_onD)
qed

lemma sole_clear_due_list:
  assumes sc: "sole_clear c s" and sub: "set L \<subseteq> set (timers s)" and cL: "c \<notin> set L"
  shows "\<forall>t \<in> set L. act t = FadeOut" and "tid c \<notin> tid ` set L"
proof -
  have other: "t \<in> set (timers s) \<and> t \<noteq> c" if "t \<in> set L" for t
    using that sub cL by blast
  show "\<forall>t \<in> set L. act t = FadeOut"
  proof
    fix t assume "t \<in> set L"
    from other [OF this] show "act t = FadeOut"
      using sole_clear_others(1) [OF sc] by blast
  qed
  show "tid c \<notin> tid ` set L"
  proof
    assume "tid c \<in> tid ` set L"
    then obtain t where t: "t \<in> set L" and eq: "tid c = tid t" by blast
    from other [OF t] have "tid t \<noteq> tid c"
      using sole_clear_others(2) [OF sc] by blast
    with eq show False by simp
  qed
qed

lemma tick_before_clear:
  assumes sc: "sole_clear c s" and nd: "Suc (now s) < due c"
  shows "sole_clear c (tick s)" and "msgText (tick s) = msgText s" and "now (tick s) = Suc (now s)"
proof -
  let ?L = "filter (\<lambda>t. due t \<le> Suc (now s)) (timers s)"
  let ?s1 = "s\<lparr>now := Suc (now s)\<rparr>"
  have cL: "c \<notin> set ?L" using nd by simp
  have sub: "set ?L \<subseteq> set (timers s)" by simp
  note dl = sole_clear_due_list [OF sc sub cL]
  from fold_fire_FadeOut [OF dl(1), of ?s1]
  have m: "msgText (tick s) = msgText s" and n: "now (tick s) = Suc (now s)"
    and tm: "timers (tick s) = filter (\<lambda>u. tid u \<notin> tid ` set ?L) (timers s)"
    by (simp_all add: tick_def)
  show "msgText (tick s) = msgText s" by (rule m)
  show "now (tick s) = Suc (now s)" by (rule n)
  from sc have wf: "cursor_wf s" and ac: "act c = ClearMsg" and c_in: "c \<in> set (timers s)"
    and only: "\<forall>t \<in> set (timers s). act t = ClearMsg \<longrightarrow> t = c"
    unfolding sole_clear_def by blast+
  have 1: "cursor_wf (tick s)" using wf by (rule wf_tick)
  have 2: "c \<in> set (timers (tick s))"
    unfolding tm using c_in dl(2) by simp
  have 3: "\<forall>t \<in> set (timers (tick s)). act t = ClearMsg \<longrightarrow> t = c"
    unfolding tm using only by simp
  show "sole_clear c (tick s)"
    unfolding sole_clear_def using 1 ac 2 3 by blast
qed

lemma advance_before_clear:
  "sole_clear c s \<Longrightarrow> now s + d < due c \<Longrightarrow>
   sole_clear c (advance d s) \<and> msgText (advance d s) = msgText s \<and> now (advance d s) = now s + d"
proof (induction d arbitrary: s)
  case 0
  then show ?case by simp
next
  case (Suc d)
  from Suc.prems have nd: "Suc (now s) < due c" by simp
  note t = tick_before_clear [OF Suc.prems(1) nd]
  have "now (tick s) + d < due c" using Suc.prems(2) t(3) by simp
  from Suc.IH [OF t(1) this] t(2,3) show ?case by simp
qed

lemma tick_at_clear:
  assumes sc: "sole_clear c s" and d: "due c \<le> Suc (now s)"
  shows "msgText (tick s) = []"
proof -
  let ?L = "filter (\<lambda>t. due t \<le> Suc (now s)) (timers s)"
  let ?s1 = "s\<lparr>now := Suc (now s)\<rparr>"
  from sc have c_in: "c \<in> set (timers s)" and dist: "distinct (timers s)"
    by (auto simp: sole_clear_def cursor_wf_def distinct_map)
  have "c \<in> set ?L" using c_in d by simp
  then obtain L1 L2 where L: "?L = L1 @ c # L2" by (auto dest: split_list)
  have dL: "distinct ?L" using dist by simp
  have c1: "c \<notin> set L1" and c2: "c \<notin> set L2" using dL unfolding L by auto
  have sub1: "set L1 \<subseteq> set (timers s)" and sub2: "set L2 \<subseteq> set (timers s)"
  proof -
    have "set ?L \<subseteq> set (timers s)" by auto
    then show "set L1 \<subseteq> set (timers s)" "set L2 \<subseteq> set (timers s)" unfolding L by auto
  qed
  note d1 = sole_clear_due_list [OF sc sub1 c1]
  note d2 = sole_clear_due_list [OF sc sub2 c2]
  have f1: "\<forall>t \<in> set L1. act t = FadeOut" by (rule d1(1))
  have f2: "\<forall>t \<in> set L2. act t = FadeOut" by (rule d2(1))
  have ids1: "tid c \<notin> tid ` set L1" by (rule d1(2))
  let ?s2 = "fold fire L1 ?s1"
  from fold_fire_FadeOut [OF f1, of ?s1]
  have tm2: "timers ?s2 = filter (\<lambda>u. tid u \<notin> tid ` set L1) (timers s)" by simp
  have "c \<in> set (timers ?s2)" using c_in ids1 by (simp add: tm2)
  then have present: "tid c \<in> set (map tid (timers ?s2))" by auto
  have "act c = ClearMsg" using sc by (simp add: sole_clear_def)
  with present have "msgText (fire c ?s2) = []"
    by (simp add: fire_def msgText_setMsgText)
  moreover have "msgText (fold fire L2 (fire c ?s2)) = msgText (fire c ?s2)"
    using fold_fire_FadeOut [OF f2, of "fire c ?s2"] by simp
  ultimately show ?thesis
    by (simp add: tick_def L)
qed

lemma message_effect_sole_clear:
  assumes wf: "cursor_wf s" and fades: "\<forall>t \<in> set (timers s). act t = FadeOut"
    and m: "at_last msgs = Some m" "socketId m = p_socketId s"
  shows "sole_clear \<lparr>tid = next_tid s, due = now s + timeToRead (textSlice (content m)), act = ClearMsg\<rparr>
           (message_effect msgs s)"
    and "msgText (message_effect msgs s) = textSlice (content m)"
    and "now (message_effect msgs s) = now s"
proof -
  let ?c = "\<lparr>tid = next_tid s, due = now s + timeToRead (textSlice (content m)), act = ClearMsg\<rparr>"
  let ?s1 = "setTimeout ClearMsg (timeToRead (textSlice (content m))) s"
  have me: "message_effect msgs s = setMsgText (textSlice (content m)) ?s1"
    using m by (simp add: message_effect_def)
  show "msgText (message_effect msgs s) = textSlice (content m)"
    by (simp add: me msgText_setMsgText)
  show "now (message_effect msgs s) = now s"
    by (simp add: me now_setMsgText setTimeout_def)
  have t1: "timers ?s1 = timers s @ [?c]" and f1: "fadeOutTimeout ?s1 = fadeOutTimeout s"
    by (simp_all add: setTimeout_def)
  have "fadeOutTimeout s \<noteq> Some (next_tid s)"
    using wf by (auto simp: cursor_wf_def)
  then have keep: "Some (tid ?c) \<noteq> fadeOutTimeout s"
    by auto
  have 1: "cursor_wf (message_effect msgs s)" using wf by (rule wf_message_effect)
  have 2: "?c \<in> set (timers (message_effect msgs s))"
    using keep by (simp add: me setMsgText_def tooltip_effect_eq t1 f1)
  have 3: "\<forall>t \<in> set (timers (message_effect msgs s)). act t = ClearMsg \<longrightarrow> t = ?c"
    using fades by (auto simp: me setMsgText_def tooltip_effect_eq t1 f1)
  have 4: "act ?c = ClearMsg" by simp
  show "sole_clear ?c (message_effect msgs s)"
    unfolding sole_clear_def using 1 4 2 3 by blast
qed

lemma timeToRead_pos: "0 < timeToRead v"
  by (simp add: timeToRead_def)

lemma message_effect_duration:
  assumes wf: "cursor_wf s" and fades: "\<forall>t \<in> set (timers s). act t = FadeOut"
    and m: "at_last msgs = Some m" "socketId m = p_socketId s"
  shows "\<forall>d < timeToRead (textSlice (content m)).
            msgText (advance d (message_effect msgs s)) = textSlice (content m)"
    and "msgText (advance (timeToRead (textSlice (content m))) (message_effect msgs s)) = []"
proof -
  let ?ttr = "timeToRead (textSlice (content m))"
  let ?c = "\<lparr>tid = next_tid s, due = now s + ?ttr, act = ClearMsg\<rparr>"
  let ?s' = "message_effect msgs s"
  note me = message_effect_sole_clear [OF wf fades m]
  have before: "sole_clear ?c (advance d ?s') \<and> msgText (advance d ?s') = textSlice (content m)
                \<and> now (advance d ?s') = now s + d" if "d < ?ttr" for d
  proof -
    have "now ?s' + d < due ?c" using that by (simp add: me(3))
    from advance_before_clear [OF me(1) this] show ?thesis by (simp add: me(2,3))
  qed
  then show "\<forall>d < ?ttr. msgText (advance d ?s') = textSlice (content m)" by simp
  obtain k where k: "?ttr = Suc k"
    using timeToRead_pos [of "textSlice (content m)"] by (cases ?ttr) simp_all
  have kk: "k < ?ttr" using k by simp
  note b = before [OF kk]
  have "due ?c \<le> Suc (now (advance k ?s'))" using b k by simp
  with b have "msgText (tick (advance k ?s')) = []"
    by (intro tick_at_clear [of ?c]) simp_all
  then show "msgText (advance ?ttr ?s') = []"
    using advance_Suc_end [of k ?s'] by (simp add: k)
qed

lemma length_textSlice: "length (textSlice c) = (if length c > 30 then 33 else length c)"
  by (simp add: textSlice_def dots_def)

lemma cursor_mount_wf_idle:
  "cursor_wf (cursor_mount 0 0 [0x61] [])"
  "\<forall>t \<in> set (timers (cursor_mount 0 0 [0x61] [])). act t = FadeOut"
  by (simp_all add: cursor_mount_cur cur_def cursor_wf_def)

text \<open>
  C6, as the code has it.  For a message of this cursor's user that arrives while no
  timeout that clears the message is pending, the bubble holds the displayed text for
  \<open>clamp(displayedText.length * 100, 1000, 4000)\<close> milliseconds and is empty from then
  on.  A message of 8 code units gives 1000 ms.  A message of 35 code units is displayed
  as 33 code units and gives 3300 ms; no displayed text is longer than 33 code units, and
  no duration longer than 3300 ms.
\<close>

theorem bubble_duration:
  assumes wf: "cursor_wf s" and idle: "\<forall>t \<in> set (timers s). act t = FadeOut"
    and m: "at_last msgs = Some m" "socketId m = p_socketId s"
  shows "timeToRead (textSlice (content m)) = spec_clamp (length (textSlice (content m)) * 100) 1000 4000
       \<and> msgText (cursor_step (Msgs msgs) s) = textSlice (content m)
       \<and> (\<forall>d < timeToRead (textSlice (content m)).
             msgText (cursor_run [Msgs msgs, Wait d] s) = textSlice (content m))
       \<and> msgText (cursor_run [Msgs msgs, Wait (timeToRead (textSlice (content m)))] s) = []
       \<and> (length (content m) = 8 \<longrightarrow> timeToRead (textSlice (content m)) = 1000)
       \<and> (length (content m) = 35 \<longrightarrow>
             length (textSlice (content m)) = 33 \<and> timeToRead (textSlice (content m)) = 3300)
       \<and> length (textSlice (content m)) \<le> 33
       \<and> timeToRead (textSlice (content m)) \<le> 3300"
proof -
  have run: "cursor_run [Msgs msgs, Wait d] s = advance d (message_effect msgs s)" for d
    by (simp add: cursor_run_def)
  have "timeToRead (textSlice (content m)) = spec_clamp (length (textSlice (content m)) * 100) 1000 4000"
    by (simp add: timeToRead_def spec_clamp_def)
  moreover have "msgText (cursor_step (Msgs msgs) s) = textSlice (content m)"
    using message_effect_sole_clear(2) [OF wf idle m] by simp
  moreover note message_effect_duration [OF wf idle m, folded run]
  moreover have "length (content m) = 8 \<longrightarrow> timeToRead (textSlice (content m)) = 1000"
    by (simp add: timeToRead_def length_textSlice)
  moreover have "length (content m) = 35 \<longrightarrow>
             length (textSlice (content m)) = 33 \<and> timeToRead (textSlice (content m)) = 3300"
    by (simp add: timeToRead_def length_textSlice)
  moreover have "length (textSlice (content m)) \<le> 33"
    by (simp add: length_textSlice)
  moreover have "timeToRead (textSlice (content m)) \<le> 3300"
    by (simp add: timeToRead_def length_textSlice)
  ultimately show ?thesis by blast
qed

theorem bubble_duration_witness:
  "cursor_wf (cursor_mount 0 0 [0x61] [])
   \<and> at_last [msg_short] = Some msg_short
   \<and> socketId msg_short = p_socketId (cursor_mount 0 0 [0x61] [])
   \<and> length (content msg_short) = 8
   \<and> msgText (cursor_run [Msgs [msg_short], Wait 999] (cursor_mount 0 0 [0x61] [])) = replicate 8 0x68
   \<and> msgText (cursor_run [Msgs [msg_short], Wait 1000] (cursor_mount 0 0 [0x61] [])) = []
   \<and> length (content msg_35) = 35
   \<and> timeToRead (textSlice (content msg_35)) = 3300
   \<and> msgText (cursor_run [Msgs [msg_35], Wait 3300] (cursor_mount 0 0 [0x61] [])) = []"
proof -
  have m: "at_last [msg_short] = Some msg_short"
    "socketId msg_short = p_socketId (cursor_mount 0 0 [0x61] [])"
    by (simp_all add: at_last_def msg_short_def cursor_mount_cur cur_def)
  have t: "textSlice (content msg_short) = replicate 8 0x68"
    "timeToRead (replicate 8 (0x68 :: code_unit)) = 1000"
    by (simp_all add: textSlice_def timeToRead_def msg_short_def)
  note bd = bubble_duration [OF cursor_mount_wf_idle m, unfolded t]
  from bd have "\<forall>d<1000. msgText (cursor_run [Msgs [msg_short], Wait d] (cursor_mount 0 0 [0x61] []))
                  = replicate 8 0x68"
    by blast
  then have a: "msgText (cursor_run [Msgs [msg_short], Wait 999] (cursor_mount 0 0 [0x61] [])) = replicate 8 0x68"
    by simp
  from bd have b: "msgText (cursor_run [Msgs [msg_short], Wait 1000] (cursor_mount 0 0 [0x61] [])) = []"
    by blast
  have l: "length (content msg_short) = 8" by (simp add: msg_short_def)
  have m': "at_last [msg_35] = Some msg_35"
    "socketId msg_35 = p_socketId (cursor_mount 0 0 [0x61] [])"
    by (simp_all add: at_last_def msg_35_def cursor_mount_cur cur_def)
  have l': "length (content msg_35) = 35" by (simp add: msg_35_def)
  note bd' = bubble_duration [OF cursor_mount_wf_idle m']
  from bd' l' have t': "timeToRead (textSlice (content msg_35)) = 3300"
    by blast
  from bd' have b': "msgText (cursor_run [Msgs [msg_35], Wait 3300] (cursor_mount 0 0 [0x61] [])) = []"
    unfolding t' by blast
  from cursor_mount_wf_idle(1) m l a b l' t' b' show ?thesis by blast
qed

text \<open>
  The claim C6 as the spec states it fails at its second example: the bubble of a message
  of 35 code units is empty again after 3300 ms, not 3500 ms.
\<close>

theorem bubble_duration_counterexample:
  "length (content msg_35) = 35
   \<and> socketId msg_35 = p_socketId (cursor_mount 0 0 [0x61] [])
   \<and> timeToRead (textSlice (content msg_35)) = 3300
   \<and> msgText (cursor_run [Msgs [msg_35], Wait 3300] (cursor_mount 0 0 [0x61] [])) = []"
proof -
  have m: "at_last [msg_35] = Some msg_35"
    "socketId msg_35 = p_socketId (cursor_mount 0 0 [0x61] [])"
    by (simp_all add: at_last_def msg_35_def cursor_mount_cur cur_def)
  have t: "timeToRead (textSlice (content msg_35)) = 3300"
    by (simp add: timeToRead_def length_textSlice msg_35_def)
  from message_effect_duration(2) [OF cursor_mount_wf_idle m]
  have "msgText (advance 3300 (message_effect [msg_35] (cursor_mount 0 0 [0x61] []))) = []"
    unfolding t .
  then show ?thesis
    using m t by (simp add: cursor_run_def msg_35_def)
qed

lemma textSlice_40: "textSlice (replicate 40 a) = replicate 30 a @ dots"
  by (simp add: textSlice_def)

text \<open>
  C5.  The code at the failing input: a message of user \<open>"a"\<close> at 0 ms, a second one at
  3000 ms.  The second effect registers a second timeout and clears none: both are
  pending, and the first fires at 3300 ms and empties the bubble, 300 ms after the second
  message appeared.
\<close>

theorem message_timers_stack:
  "msgText (cursor_run [Msgs [msg_long1], Wait 3000, Msgs [msg_long1, msg_long2]] (cursor_mount 0 0 [0x61] []))
     = replicate 30 0x69 @ dots
   \<and> filter (\<lambda>t. act t = ClearMsg)
        (timers (cursor_run [Msgs [msg_long1], Wait 3000, Msgs [msg_long1, msg_long2]] (cursor_mount 0 0 [0x61] [])))
       = [\<lparr>tid = 2, due = 3300, act = ClearMsg\<rparr>, \<lparr>tid = 4, due = 6300, act = ClearMsg\<rparr>]
   \<and> now (cursor_run [Msgs [msg_long1], Wait 3000, Msgs [msg_long1, msg_long2], Wait 300] (cursor_mount 0 0 [0x61] []))
       = 3300
   \<and> msgText (cursor_run [Msgs [msg_long1], Wait 3000, Msgs [msg_long1, msg_long2], Wait 300] (cursor_mount 0 0 [0x61] []))
       = []"
proof -
  let ?F1 = "\<lparr>tid = 1, due = 3000, act = FadeOut\<rparr>"
  let ?C2 = "\<lparr>tid = 2, due = 3300, act = ClearMsg\<rparr>"
  let ?F3 = "\<lparr>tid = 3, due = 3000, act = FadeOut\<rparr>"
  let ?C4 = "\<lparr>tid = 4, due = 6300, act = ClearMsg\<rparr>"
  let ?F5 = "\<lparr>tid = 5, due = 6000, act = FadeOut\<rparr>"
  let ?F6 = "\<lparr>tid = 6, due = 6300, act = FadeOut\<rparr>"
  let ?t1 = "replicate 30 (0x68 :: code_unit) @ dots"
  let ?t2 = "replicate 30 (0x69 :: code_unit) @ dots"
  have ne: "?t1 \<noteq> ?t2" "?t2 \<noteq> []" "?t1 \<noteq> []" by (simp_all add: dots_def)
  have s1: "cursor_step (Msgs [msg_long1]) (cur True [] (Some 1) [?F1] 2 0)
              = cur True ?t1 (Some 3) [?C2, ?F3] 4 0"
    using ne
    by (simp add: message_effect_def at_last_def msg_long1_def textSlice_40 timeToRead_def
        setMsgText_def tooltip_effect_eq setTimeout_def cur_def) (simp add: dots_def)
  have i2: "advance 2999 (cur True ?t1 (Some 3) [?C2, ?F3] 4 0) = cur True ?t1 (Some 3) [?C2, ?F3] 4 2999"
    using advance_idle [of "cur True ?t1 (Some 3) [?C2, ?F3] 4 0" 2999] by (simp add: cur_simps)
  have k2: "tick (cur True ?t1 (Some 3) [?C2, ?F3] 4 2999) = cur False ?t1 (Some 3) [?C2] 4 3000"
    by (simp add: tick_def fire_def clearTimeout_def cur_def)
  have "advance 3000 (cur True ?t1 (Some 3) [?C2, ?F3] 4 0)
          = tick (advance 2999 (cur True ?t1 (Some 3) [?C2, ?F3] 4 0))"
    using advance_then_tick [of 2999 "cur True ?t1 (Some 3) [?C2, ?F3] 4 0"] by simp
  then have s2: "advance 3000 (cur True ?t1 (Some 3) [?C2, ?F3] 4 0) = cur False ?t1 (Some 3) [?C2] 4 3000"
    by (simp only: i2 k2)
  have s3: "cursor_step (Msgs [msg_long1, msg_long2]) (cur False ?t1 (Some 3) [?C2] 4 3000)
              = cur True ?t2 (Some 5) [?C2, ?C4, ?F5] 6 3000"
    using ne
    by (simp add: message_effect_def at_last_def msg_long2_def textSlice_40 timeToRead_def
        setMsgText_def tooltip_effect_eq setTimeout_def cur_def) (simp add: dots_def)
  have i4: "advance 299 (cur True ?t2 (Some 5) [?C2, ?C4, ?F5] 6 3000)
              = cur True ?t2 (Some 5) [?C2, ?C4, ?F5] 6 3299"
    using advance_idle [of "cur True ?t2 (Some 5) [?C2, ?C4, ?F5] 6 3000" 299] by (simp add: cur_simps)
  have k4: "tick (cur True ?t2 (Some 5) [?C2, ?C4, ?F5] 6 3299) = cur True [] (Some 6) [?C4, ?F6] 7 3300"
    using ne
    by (simp add: tick_def fire_def clearTimeout_def setMsgText_def tooltip_effect_eq cur_def)
  have "advance 300 (cur True ?t2 (Some 5) [?C2, ?C4, ?F5] 6 3000)
          = tick (advance 299 (cur True ?t2 (Some 5) [?C2, ?C4, ?F5] 6 3000))"
    using advance_then_tick [of 299 "cur True ?t2 (Some 5) [?C2, ?C4, ?F5] 6 3000"] by simp
  then have s4: "advance 300 (cur True ?t2 (Some 5) [?C2, ?C4, ?F5] 6 3000) = cur True [] (Some 6) [?C4, ?F6] 7 3300"
    by (simp only: i4 k4)
  show ?thesis
    unfolding cursor_run_def cursor_mount_cur
    by (simp only: fold_simps cursor_step.simps(5) s1 s2 s3 s4 cur_simps id_apply o_apply) simp
qed


end
